theory Spec2Isabelle
  imports Main
begin

section \<open>JavaScript values and strings\<close>

text \<open>
  The converters work on parsed JSON and on plain object literals. A value of the
  program is a \<open>jsval\<close>: the JSON shapes, \<open>undefined\<close> (what reading a missing
  property gives) and native functions (what reading \<open>constructor\<close> and the other
  members of \<open>Object.prototype\<close> gives).

  A \<open>char\<close> stands for one UTF-16 code unit in the range U+0000 to U+00FF; code units
  above that range are outside the model. The code never computes with a number: it
  tests its truthiness and it stringifies it. A number is therefore carried as the
  string that \<open>String(n)\<close> gives for it; zero of either sign is the number whose string
  is \<open>0\<close> and NaN the one whose string is \<open>NaN\<close>. An object is the list of its own
  enumerable properties in enumeration order.
\<close>

datatype jsval =
    JUndefined
  | JNull
  | JBool bool
  | JNum string
  | JStr string
  | JArr "jsval list"
  | JObj "(string \<times> jsval) list"
  | JFun string

datatype error =
    TypeError
  | NetworkError
  | HttpError nat
  | NotIIIF
  | SyntaxError

text \<open>Truthiness, as tested by \<open>!x\<close>, \<open>x || y\<close>, \<open>if (x)\<close> and \<open>filter(Boolean)\<close>. The
  falsy numbers are zero and NaN.\<close>

fun truthy :: "jsval \<Rightarrow> bool" where
  "truthy JUndefined = False"
| "truthy JNull = False"
| "truthy (JBool b) = b"
| "truthy (JNum n) = (n \<noteq> ''0'' \<and> n \<noteq> ''NaN'')"
| "truthy (JStr s) = (s \<noteq> [])"
| "truthy (JArr xs) = True"
| "truthy (JObj kvs) = True"
| "truthy (JFun f) = True"

text \<open>\<open>x == null\<close>: true of \<open>null\<close> and \<open>undefined\<close> only. Reading a property of
  such a value throws a TypeError.\<close>

fun nullish :: "jsval \<Rightarrow> bool" where
  "nullish JUndefined = True"
| "nullish JNull = True"
| "nullish v = False"

definition js_or :: "jsval \<Rightarrow> jsval \<Rightarrow> jsval" where
  "js_or a b = (if truthy a then a else b)"

text \<open>The string form of \<open>a || b\<close> when both sides are strings.\<close>

definition str_or :: "string \<Rightarrow> string \<Rightarrow> string" where
  "str_or a b = (if a \<noteq> [] then a else b)"

text \<open>\<open>Array.prototype.join\<close> on an array of strings.\<close>

fun join :: "string \<Rightarrow> string list \<Rightarrow> string" where
  "join sep [] = []"
| "join sep [x] = x"
| "join sep (x # y # ys) = x @ sep @ join sep (y # ys)"

text \<open>\<open>String(v)\<close>, and the conversion inside a template literal, either throw a
  TypeError or give a string.

  They throw on an object that has an own property \<open>toString\<close>: the conversion of an
  object calls its \<open>toString\<close> and then its \<open>valueOf\<close>, skipping what is not a
  function; an own \<open>toString\<close> of a JSON object is never a function and hides the
  inherited one, and \<open>valueOf\<close> is either an own property that is no function or the
  inherited one, which returns the object itself and not a string. An array converts
  by joining the conversions of its elements, so it throws when an element other than
  \<open>null\<close> and \<open>undefined\<close> does.\<close>

fun throws_on_String :: "jsval \<Rightarrow> bool" where
  "throws_on_String (JObj kvs) = (''toString'' \<in> set (map fst kvs))"
| "throws_on_String (JArr xs) = list_ex (\<lambda>x. \<not> nullish x \<and> throws_on_String x) xs"
| "throws_on_String v = False"

text \<open>The string that the conversion gives when it does not throw. An array gives its
  elements joined by commas, with \<open>null\<close> and \<open>undefined\<close> elements as the empty
  string; an object gives \<open>[object Object]\<close>; \<open>JFun f\<close> is the native function of
  name \<open>f\<close>.\<close>

fun string_of :: "jsval \<Rightarrow> string" where
  "string_of JUndefined = ''undefined''"
| "string_of JNull = ''null''"
| "string_of (JBool b) = (if b then ''true'' else ''false'')"
| "string_of (JNum n) = n"
| "string_of (JStr s) = s"
| "string_of (JArr xs) = join '','' (map (\<lambda>x. if nullish x then [] else string_of x) xs)"
| "string_of (JObj kvs) = ''[object Object]''"
| "string_of (JFun f) = ''function '' @ f @ ''() { [native code] }''"

definition js_String :: "jsval \<Rightarrow> error + string" where
  "js_String v = (if throws_on_String v then Inl TypeError else Inr (string_of v))"

text \<open>\<open>String\<close> applied to the values of a list in turn, up to the first that
  throws.\<close>

fun js_Strings :: "jsval list \<Rightarrow> error + string list" where
  "js_Strings [] = Inr []"
| "js_Strings (v # vs) =
     (case js_String v of
        Inl e \<Rightarrow> Inl e
      | Inr s \<Rightarrow> (case js_Strings vs of Inl e \<Rightarrow> Inl e | Inr ss \<Rightarrow> Inr (s # ss)))"

text \<open>White space as \<open>String.prototype.trim\<close> and the regular expression class
  \<open>\s\<close> see it, within U+0000 to U+00FF: TAB, LF, VT, FF, CR, SPACE and NBSP.\<close>

definition is_ws :: "char \<Rightarrow> bool" where
  "is_ws c = (c \<in> set [CHR 0x09, CHR 0x0A, CHR 0x0B, CHR 0x0C, CHR 0x0D, CHR 0x20, CHR 0xA0])"

definition js_trim :: "string \<Rightarrow> string" where
  "js_trim s = rev (dropWhile is_ws (rev (dropWhile is_ws s)))"

text \<open>\<open>String.prototype.toLowerCase\<close> on U+0000 to U+00FF: the letters A to Z and
  the Latin-1 capitals U+00C0 to U+00DE (the multiplication sign U+00D7 apart) move up
  by 32; everything else stays.\<close>

definition lower_char :: "char \<Rightarrow> char" where
  "lower_char c =
     (let n = (of_char c :: nat)
      in if (65 \<le> n \<and> n \<le> 90) \<or> (192 \<le> n \<and> n \<le> 222 \<and> n \<noteq> 215)
         then char_of (n + 32) else c)"

definition toLowerCase :: "string \<Rightarrow> string" where
  "toLowerCase s = map lower_char s"

text \<open>Own properties first, then \<open>Object.prototype\<close>, whose members are the only
  inherited ones of a parsed JSON object or of an object literal: \<open>__proto__\<close> reads
  as the prototype object itself, \<open>constructor\<close> as the function \<open>Object\<close>, and each
  of the other members as the native function of its own name.\<close>

definition object_prototype :: "string \<Rightarrow> jsval" where
  "object_prototype k =
     (if k = ''__proto__'' then JObj []
      else if k = ''constructor'' then JFun ''Object''
      else if k \<in> set [''__defineGetter__'', ''__defineSetter__'',
                        ''hasOwnProperty'', ''__lookupGetter__'', ''__lookupSetter__'',
                        ''isPrototypeOf'', ''propertyIsEnumerable'', ''toString'',
                        ''valueOf'', ''toLocaleString'']
      then JFun k
      else JUndefined)"

text \<open>\<open>v[k]\<close> for a value \<open>v\<close> that is neither \<open>null\<close> nor \<open>undefined\<close> (the
  callers test that first, since the read throws there). On strings, arrays, numbers
  and booleans the property names this code reads are not built-in members, so the
  read gives \<open>undefined\<close>.\<close>

fun get :: "jsval \<Rightarrow> string \<Rightarrow> jsval" where
  "get (JObj kvs) k = (case map_of kvs k of Some v \<Rightarrow> v | None \<Rightarrow> object_prototype k)"
| "get v k = JUndefined"

section \<open>Label Normalizer\<close>

text \<open>What the loop over a v2-style label array stringifies for one element (lines 57
  to 62 of the core): the \<open>@value\<close> of an object that has one, the element itself
  otherwise, and nothing for \<open>null\<close> and \<open>undefined\<close>.\<close>

definition label_piece :: "jsval \<Rightarrow> jsval list" where
  "label_piece item =
     (case item of
        JObj kvs \<Rightarrow>
          (if ''@value'' \<in> set (map fst kvs) then [get item ''@value''] else [item])
      | _ \<Rightarrow> (if \<not> nullish item then [item] else []))"

text \<open>What the loop over one language of a v3-style language map stringifies (lines 44
  to 49): the truthy elements of an array.\<close>

definition lang_pieces :: "jsval \<Rightarrow> jsval list" where
  "lang_pieces vals = (case vals of JArr vs \<Rightarrow> filter truthy vs | _ \<Rightarrow> [])"

text \<open>\<open>pieces.join(" ").trim()\<close> over the stringified pieces.\<close>

definition join_pieces :: "jsval list \<Rightarrow> error + string" where
  "join_pieces vs =
     (case js_Strings vs of
        Inl e \<Rightarrow> Inl e
      | Inr pieces \<Rightarrow> Inr (js_trim (join '' '' pieces)))"

definition iiifLabelToString :: "jsval \<Rightarrow> error + string" where
  "iiifLabelToString label =
     (if \<not> truthy label then Inr []
      else case label of
        JObj kvs \<Rightarrow>
          join_pieces (concat (map (\<lambda>lang. lang_pieces (get label lang)) (map fst kvs)))
      | JArr items \<Rightarrow> join_pieces (concat (map label_piece items))
      | JStr s \<Rightarrow> Inr (js_trim s)
      | _ \<Rightarrow> (case js_String label of Inl e \<Rightarrow> Inl e | Inr s \<Rightarrow> Inr (js_trim s)))"

section \<open>Plain string helpers\<close>

text \<open>\<open>s.startsWith(p)\<close>.\<close>

fun starts_with :: "string \<Rightarrow> string \<Rightarrow> bool" where
  "starts_with s [] = True"
| "starts_with [] (p # ps) = False"
| "starts_with (c # cs) (p # ps) = (c = p \<and> starts_with cs ps)"

text \<open>\<open>/p/.test(s)\<close> for a pattern \<open>p\<close> of literal characters: \<open>p\<close> occurs in \<open>s\<close>.\<close>

fun contains :: "string \<Rightarrow> string \<Rightarrow> bool" where
  "contains [] p = (p = [])"
| "contains (c # cs) p = (starts_with (c # cs) p \<or> contains cs p)"

text \<open>\<open>s.split(sep)\<close> for a one-character separator.\<close>

fun split_char :: "char \<Rightarrow> string \<Rightarrow> string list" where
  "split_char sep [] = [[]]"
| "split_char sep (c # cs) =
     (if c = sep then [] # split_char sep cs
      else (case split_char sep cs of p # ps \<Rightarrow> (c # p) # ps | [] \<Rightarrow> [[c]]))"

text \<open>\<open>s.split(/[...]+/)\<close> for a character class given as a predicate: every maximal
  run of separator characters is one separator.\<close>

function split_runs :: "(char \<Rightarrow> bool) \<Rightarrow> string \<Rightarrow> string list" where
  "split_runs sep [] = [[]]"
| "split_runs sep (c # cs) =
     (if sep c then [] # split_runs sep (dropWhile sep cs)
      else (case split_runs sep cs of p # ps \<Rightarrow> (c # p) # ps | [] \<Rightarrow> [[c]]))"
  by pat_completeness auto
termination
  by (relation "measure (\<lambda>(sep, s). length s)")
     (auto simp: length_dropWhile_le less_Suc_eq_le)

definition is_digit :: "char \<Rightarrow> bool" where
  "is_digit c = (48 \<le> (of_char c :: nat) \<and> (of_char c :: nat) \<le> 57)"

text \<open>The class \<open>\w\<close>, which decides the word boundary \<open>\b\<close>: A-Z, a-z, 0-9 and _.\<close>

definition is_word_char :: "char \<Rightarrow> bool" where
  "is_word_char c =
     (let n = (of_char c :: nat)
      in (65 \<le> n \<and> n \<le> 90) \<or> (97 \<le> n \<and> n \<le> 122) \<or> (48 \<le> n \<and> n \<le> 57) \<or> n = 95)"

section \<open>Metadata Lookup\<close>

text \<open>\<open>manifest.metadata || []\<close>.\<close>

definition metadata_of :: "jsval \<Rightarrow> jsval" where
  "metadata_of manifest = js_or (get manifest ''metadata'') (JArr [])"

text \<open>The values that \<open>for (const x of v)\<close> visits: the elements of an array, the
  characters of a string; anything else is not iterable and the loop throws.\<close>

definition iterate :: "jsval \<Rightarrow> error + jsval list" where
  "iterate v =
     (case v of
        JArr xs \<Rightarrow> Inr xs
      | JStr s \<Rightarrow> Inr (map (\<lambda>c. JStr [c]) s)
      | _ \<Rightarrow> Inl TypeError)"

text \<open>\<open>entry.label || entry["label"]\<close> and \<open>entry.value || entry["value"]\<close>, for an
  entry that is not \<open>null\<close>.\<close>

definition entry_field :: "jsval \<Rightarrow> string \<Rightarrow> jsval" where
  "entry_field entry k = js_or (get entry k) (get entry k)"

text \<open>The inner loop over the candidate names (lines 88 to 93): \<open>Some v\<close> when it
  returns \<open>v\<close>, \<open>None\<close> when it runs to its end, an error when normalizing the value
  throws.\<close>

fun match_keys :: "jsval \<Rightarrow> string \<Rightarrow> string list \<Rightarrow> error + string option" where
  "match_keys entry labelStr [] = Inr None"
| "match_keys entry labelStr (key # keys) =
     (if toLowerCase labelStr = toLowerCase key
      then (case iiifLabelToString (entry_field entry ''value'') of
              Inl e \<Rightarrow> Inl e
            | Inr valueStr \<Rightarrow>
                (if valueStr \<noteq> [] then Inr (Some valueStr)
                 else match_keys entry labelStr keys))
      else match_keys entry labelStr keys)"

text \<open>The outer loop over the metadata entries (lines 86 to 95).\<close>

fun metadata_loop :: "jsval list \<Rightarrow> string list \<Rightarrow> error + string" where
  "metadata_loop [] keyCandidates = Inr []"
| "metadata_loop (entry # rest) keyCandidates =
     (if nullish entry then Inl TypeError
      else (case iiifLabelToString (entry_field entry ''label'') of
              Inl e \<Rightarrow> Inl e
            | Inr labelStr \<Rightarrow>
                (case match_keys entry labelStr keyCandidates of
                   Inl e \<Rightarrow> Inl e
                 | Inr (Some v) \<Rightarrow> Inr v
                 | Inr None \<Rightarrow> metadata_loop rest keyCandidates)))"

definition getFirstMetadataValue :: "jsval \<Rightarrow> string list \<Rightarrow> error + string" where
  "getFirstMetadataValue manifest keyCandidates =
     (if nullish manifest then Inl TypeError
      else (case iterate (metadata_of manifest) of
              Inl e \<Rightarrow> Inl e
            | Inr entries \<Rightarrow> metadata_loop entries keyCandidates))"

section \<open>Field Extractors\<close>

subsection \<open>Type inference\<close>

text \<open>\<open>/ms\b/.test(s)\<close>: an occurrence of \<open>ms\<close> that the end of the string or a
  character outside \<open>\w\<close> follows.\<close>

fun ms_boundary :: "string \<Rightarrow> bool" where
  "ms_boundary [] = False"
| "ms_boundary (c # cs) =
     ((starts_with (c # cs) ''ms'' \<and> (case drop 1 cs of [] \<Rightarrow> True | d # _ \<Rightarrow> \<not> is_word_char d))
      \<or> ms_boundary cs)"

text \<open>\<open>/manuscript|codex|ms\b/.test(s)\<close> and \<open>/article|journal|periodical/.test(s)\<close>.\<close>

definition re_manuscript :: "string \<Rightarrow> bool" where
  "re_manuscript s = (contains s ''manuscript'' \<or> contains s ''codex'' \<or> ms_boundary s)"

definition re_article :: "string \<Rightarrow> bool" where
  "re_article s = (contains s ''article'' \<or> contains s ''journal'' \<or> contains s ''periodical'')"

text \<open>Lines 112 to 121: the haystack and its classification.\<close>

definition type_haystack :: "string \<Rightarrow> string list \<Rightarrow> string" where
  "type_haystack label descCandidates = toLowerCase (label @ '' '' @ join '' '' descCandidates)"

definition classify_haystack :: "string \<Rightarrow> string" where
  "classify_haystack haystack =
     (if re_manuscript haystack then ''manuscript''
      else if re_article haystack then ''article-journal''
      else ''book'')"

definition inferTypeFromMetadata :: "jsval \<Rightarrow> error + string" where
  "inferTypeFromMetadata manifest =
     (if nullish manifest then Inl TypeError
      else
        (case iiifLabelToString (js_or (get manifest ''label'') (get manifest ''label'')) of
           Inl e \<Rightarrow> Inl e
         | Inr label \<Rightarrow>
        (case iiifLabelToString
                (js_or (get manifest ''description'') (get manifest ''description'')) of
           Inl e \<Rightarrow> Inl e
         | Inr description \<Rightarrow>
        (case getFirstMetadataValue manifest [''Type'', ''type''] of
           Inl e \<Rightarrow> Inl e
         | Inr ty \<Rightarrow>
             (let descCandidates = filter (\<lambda>s. s \<noteq> []) [description, ty]
              in Inr (classify_haystack (type_haystack label descCandidates)))))))"

subsection \<open>Author extraction\<close>

definition author_of_name :: "string \<Rightarrow> jsval" where
  "author_of_name nameStr =
     (let tokens = split_runs is_ws nameStr
      in if length tokens = 1 then JObj [(''family'', JStr (hd tokens))]
         else JObj [(''given'', JStr (join '' '' (butlast tokens))),
                    (''family'', JStr (last tokens))])"

definition extractAuthors :: "jsval \<Rightarrow> error + jsval list" where
  "extractAuthors manifest =
     (case getFirstMetadataValue manifest
             [''Author'', ''Authors'', ''Creator'', ''Creators'', ''author'', ''creator''] of
        Inl e \<Rightarrow> Inl e
      | Inr creatorsRaw \<Rightarrow>
          (if creatorsRaw = [] then Inr []
           else
             (let parts = filter (\<lambda>p. p \<noteq> [])
                            (map js_trim
                               (split_runs (\<lambda>c. c = CHR '';'' \<or> c = CHR 0x0A) creatorsRaw))
              in Inr (map author_of_name parts))))"

subsection \<open>Date extraction\<close>

text \<open>The class \<open>[-\/\s]\<close>.\<close>

definition is_sep_char :: "char \<Rightarrow> bool" where
  "is_sep_char c = (c = CHR ''-'' \<or> c = CHR ''/'' \<or> is_ws c)"

text \<open>The negative lookaheads \<open>(?!\s*by)\<close> and \<open>(?!\s*(by|for))\<close> look at what
  follows the word: \<open>lookahead_ws_then w rest\<close> holds when \<open>\s*w\<close> matches at the
  start of \<open>rest\<close>, letters compared as the \<open>i\<close> flag compares them.\<close>

definition lookahead_ws_then :: "string \<Rightarrow> string \<Rightarrow> bool" where
  "lookahead_ws_then w rest = starts_with (toLowerCase (dropWhile is_ws rest)) w"

text \<open>\<open>created(?!\s*by)|published(?!\s*(by|for))\<close> at the start of \<open>s\<close>, under the
  \<open>i\<close> flag: \<open>Some rest\<close> with what follows the word when it matches.\<close>

definition match_created_published :: "string \<Rightarrow> string option" where
  "match_created_published s =
     (if starts_with (toLowerCase s) ''created''
      then (let rest = drop 7 s
            in if lookahead_ws_then ''by'' rest then None else Some rest)
      else if starts_with (toLowerCase s) ''published''
      then (let rest = drop 9 s
            in if lookahead_ws_then ''by'' rest \<or> lookahead_ws_then ''for'' rest then None
               else Some rest)
      else None)"

text \<open>\<open>CREATED_PUBLISHED_LABEL_RE.test(s)\<close> (lines 163 and 164): one of the two
  words, then optionally a run of separators and one of the two words again, anchored
  at both ends. The separator run is greedy and a word cannot start with a separator,
  so the run is all the separators that follow the first word.\<close>

definition CREATED_PUBLISHED_LABEL_RE :: "string \<Rightarrow> bool" where
  "CREATED_PUBLISHED_LABEL_RE s =
     (case match_created_published s of
        None \<Rightarrow> False
      | Some rest \<Rightarrow>
          rest = [] \<or>
          (let rest' = dropWhile is_sep_char rest
           in rest' \<noteq> rest \<and> match_created_published rest' = Some []))"

text \<open>The loop of lines 185 to 191, threading \<open>dateStr\<close>.\<close>

fun created_published_loop :: "jsval list \<Rightarrow> string \<Rightarrow> error + string" where
  "created_published_loop [] dateStr = Inr dateStr"
| "created_published_loop (entry # rest) dateStr =
     (if nullish entry then Inl TypeError
      else (case iiifLabelToString (entry_field entry ''label'') of
              Inl e \<Rightarrow> Inl e
            | Inr labelStr \<Rightarrow>
                (if CREATED_PUBLISHED_LABEL_RE labelStr
                 then (case iiifLabelToString (entry_field entry ''value'') of
                         Inl e \<Rightarrow> Inl e
                       | Inr dateStr' \<Rightarrow>
                           (if dateStr' \<noteq> [] then Inr dateStr'
                            else created_published_loop rest dateStr'))
                 else created_published_loop rest dateStr)))"

text \<open>Steps 1 and 2 of \<open>extractDate\<close> (lines 174 to 192): the date string located
  in the metadata.\<close>

definition locate_date :: "jsval \<Rightarrow> error + string" where
  "locate_date manifest =
     (case getFirstMetadataValue manifest [''Date'', ''Publication Date'', ''date'', ''Issued''] of
        Inl e \<Rightarrow> Inl e
      | Inr dateStr \<Rightarrow>
          (if dateStr = []
           then (case iterate (metadata_of manifest) of
                   Inl e \<Rightarrow> Inl e
                 | Inr entries \<Rightarrow> created_published_loop entries dateStr)
           else Inr dateStr))"

text \<open>\<open>(1[0-9]{3}|20[0-9]{2})\<close> at the very start of \<open>s\<close>.\<close>

definition year_at :: "string \<Rightarrow> bool" where
  "year_at s =
     (case s of
        a # b # c # d # _ \<Rightarrow>
          (a = CHR ''1'' \<and> is_digit b \<and> is_digit c \<and> is_digit d) \<or>
          (a = CHR ''2'' \<and> b = CHR ''0'' \<and> is_digit c \<and> is_digit d)
      | _ \<Rightarrow> False)"

text \<open>\<open>dateStr.match(/(1[0-9]{3}|20[0-9]{2})/)\<close>: group 1 of the leftmost match.\<close>

fun year_match :: "string \<Rightarrow> string option" where
  "year_match [] = None"
| "year_match (c # cs) = (if year_at (c # cs) then Some (take 4 (c # cs)) else year_match cs)"

text \<open>Step 3 of \<open>extractDate\<close> (lines 194 to 200).\<close>

definition date_of_string :: "string \<Rightarrow> string" where
  "date_of_string dateStr =
     (if dateStr = [] then []
      else (case year_match dateStr of Some y \<Rightarrow> y | None \<Rightarrow> js_trim dateStr))"

definition extractDate :: "jsval \<Rightarrow> error + string" where
  "extractDate manifest =
     (case locate_date manifest of
        Inl e \<Rightarrow> Inl e
      | Inr dateStr \<Rightarrow> Inr (date_of_string dateStr))"

subsection \<open>Publisher extraction\<close>

definition extractPublisher :: "jsval \<Rightarrow> error + string" where
  "extractPublisher manifest =
     (case getFirstMetadataValue manifest
             [''Publisher'', ''publisher'', ''Institution'', ''Holding Institution'', ''Repository''] of
        Inl e \<Rightarrow> Inl e
      | Inr publisher \<Rightarrow> Inr (str_or publisher []))"

subsection \<open>Homepage resolution\<close>

text \<open>\<open>typeof v === "object"\<close> for a truthy \<open>v\<close>: objects and arrays.\<close>

fun is_object :: "jsval \<Rightarrow> bool" where
  "is_object (JObj kvs) = True"
| "is_object (JArr xs) = True"
| "is_object v = False"

text \<open>The local function \<open>pickId\<close> (lines 229 to 235).\<close>

definition pickId :: "jsval \<Rightarrow> string" where
  "pickId obj =
     (if \<not> truthy obj \<or> \<not> is_object obj then []
      else (case get obj ''id'' of
              JStr s \<Rightarrow> s
            | _ \<Rightarrow> (case get obj ''@id'' of
                       JStr s \<Rightarrow> s
                     | _ \<Rightarrow> (case get obj ''href'' of JStr s \<Rightarrow> s | _ \<Rightarrow> []))))"

text \<open>The block that lines 237 to 250 run on \<open>homepage\<close> and lines 254 to 265 run on
  \<open>related\<close>: \<open>Some u\<close> when the block returns \<open>u\<close>, \<open>None\<close> when control falls
  through it.\<close>

definition link_target :: "jsval \<Rightarrow> string option" where
  "link_target v =
     (if \<not> truthy v then None
      else (case v of
              JStr s \<Rightarrow> Some s
            | JArr (first # others) \<Rightarrow>
                (case first of
                   JStr s \<Rightarrow> Some s
                 | _ \<Rightarrow> (let i = pickId first in if i \<noteq> [] then Some i else None))
            | JArr [] \<Rightarrow> (let i = pickId v in if i \<noteq> [] then Some i else None)
            | JObj kvs \<Rightarrow> (let i = pickId v in if i \<noteq> [] then Some i else None)
            | _ \<Rightarrow> None))"

text \<open>\<open>extractHomepageURL\<close>, \<open>extractIdFromManifest\<close> and \<open>buildIiifNote\<close> are
  modelled for a manifest that is neither \<open>null\<close> nor \<open>undefined\<close>:
  \<open>manifestToCSLItem\<close> has read \<open>manifest.label\<close> before it calls them.\<close>

definition extractHomepageURL :: "jsval \<Rightarrow> string" where
  "extractHomepageURL manifest =
     (case link_target (get manifest ''homepage'') of
        Some u \<Rightarrow> u
      | None \<Rightarrow> (case link_target (get manifest ''related'') of Some u \<Rightarrow> u | None \<Rightarrow> []))"

subsection \<open>Note construction\<close>

text \<open>The loop of lines 297 to 303, with the lines pushed so far.\<close>

fun note_loop :: "jsval list \<Rightarrow> string list \<Rightarrow> error + string list" where
  "note_loop [] lines = Inr lines"
| "note_loop (entry # rest) lines =
     (if nullish entry then Inl TypeError
      else (case iiifLabelToString (entry_field entry ''label'') of
              Inl e \<Rightarrow> Inl e
            | Inr k \<Rightarrow>
                (case iiifLabelToString (entry_field entry ''value'') of
                   Inl e \<Rightarrow> Inl e
                 | Inr v \<Rightarrow>
                     (if k \<noteq> [] \<or> v \<noteq> []
                      then note_loop rest (lines @ [str_or k ''?'' @ '': '' @ v])
                      else note_loop rest lines))))"

text \<open>\<open>if (v) lines.push(`name: ${v}`)\<close>: the lines pushed.\<close>

definition note_field_line :: "string \<Rightarrow> jsval \<Rightarrow> error + string list" where
  "note_field_line name v =
     (if truthy v
      then (case js_String v of Inl e \<Rightarrow> Inl e | Inr s \<Rightarrow> Inr [name @ '': '' @ s])
      else Inr [])"

text \<open>\<open>buildIiifNote\<close>, for metadata that can be iterated (absent, an array or a string),
  where \<open>metadata.length > 0\<close> says that there is an entry. On other metadata the
  extractors that \<open>manifestToCSLItem\<close> runs before this function have thrown already
  (lemma \<open>lookup_returns_iterable\<close>), so that this function is not reached; the model
  gives a TypeError there.\<close>

definition buildIiifNote :: "jsval \<Rightarrow> string \<Rightarrow> error + string" where
  "buildIiifNote manifest manifestUrl =
     (let lines0 = [''IIIF manifest metadata'', ''======================'', []];
          lines1 = (if manifestUrl \<noteq> [] then lines0 @ [''Manifest URL: '' @ manifestUrl] else lines0)
      in (case note_field_line ''@id'' (get manifest ''@id'') of
            Inl e \<Rightarrow> Inl e
          | Inr idLine \<Rightarrow>
         (case note_field_line ''@context'' (get manifest ''@context'') of
            Inl e \<Rightarrow> Inl e
          | Inr contextLine \<Rightarrow>
         (let lines3 = lines1 @ idLine @ contextLine
          in (case iterate (metadata_of manifest) of
                Inl e \<Rightarrow> Inl e
              | Inr entries \<Rightarrow>
                  (if length entries > 0
                   then (case note_loop entries (lines3 @ [[], ''IIIF metadata:'']) of
                           Inl e \<Rightarrow> Inl e
                         | Inr lines \<Rightarrow> Inr (js_trim (join [CHR 0x0A] lines)))
                   else Inr (js_trim (join [CHR 0x0A] lines3))))))))"

subsection \<open>Manifest-directory trimming\<close>

text \<open>The platform's \<open>URL\<close> class is not code of this repository. It is a parameter:
  the constructor (\<open>None\<close> when it throws), the \<open>pathname\<close> getter, the three setters
  the code uses and \<open>toString\<close>.\<close>

record 'u url_api =
  url_parse :: "string \<Rightarrow> 'u option"
  url_set_search :: "string \<Rightarrow> 'u \<Rightarrow> 'u"
  url_set_hash :: "string \<Rightarrow> 'u \<Rightarrow> 'u"
  url_pathname :: "'u \<Rightarrow> string"
  url_set_pathname :: "string \<Rightarrow> 'u \<Rightarrow> 'u"
  url_toString :: "'u \<Rightarrow> string"

text \<open>Lines 324 to 336: from the path to the path of the parent directory.\<close>

definition trimmed_path :: "string \<Rightarrow> string" where
  "trimmed_path pathname =
     (let parts = split_char CHR ''/'' pathname;
          parts1 = (if length parts > 1 \<and> last parts = [] then butlast parts else parts);
          parts2 = (if length parts1 > 1 then butlast parts1 else parts1);
          newPath = join ''/'' parts2
      in if starts_with newPath ''/'' then newPath else ''/'' @ newPath)"

definition trimManifestDirectory :: "'u url_api \<Rightarrow> string \<Rightarrow> string" where
  "trimManifestDirectory U manifestUrl =
     (if manifestUrl = [] then []
      else (case url_parse U manifestUrl of
              None \<Rightarrow> manifestUrl
            | Some u \<Rightarrow>
                (let u1 = url_set_search U [] u;
                     u2 = url_set_hash U [] u1;
                     u3 = url_set_pathname U (trimmed_path (url_pathname U u2)) u2
                 in url_toString U u3)))"

subsection \<open>Identifier extraction\<close>

definition extractIdFromManifest :: "jsval \<Rightarrow> string \<Rightarrow> error + string" where
  "extractIdFromManifest manifest manifestUrl =
     (if truthy (get manifest ''@id'') then js_String (get manifest ''@id'')
      else if truthy (get manifest ''id'') then js_String (get manifest ''id'')
      else if manifestUrl \<noteq> [] then Inr manifestUrl
      else (case iiifLabelToString (js_or (get manifest ''label'') (get manifest ''label'')) of
              Inl e \<Rightarrow> Inl e
            | Inr label \<Rightarrow> (if label \<noteq> [] then Inr label else Inr [])))"

section \<open>Manifest-to-Citation Mapper\<close>

text \<open>Lines 368 to 370: \<open>label || extractIdFromManifest(...) || "[untitled IIIF
  manifest]"\<close>, where the identifier is only extracted when the label is empty.\<close>

definition title_of :: "jsval \<Rightarrow> string \<Rightarrow> error + string" where
  "title_of manifest manifestUrl =
     (case iiifLabelToString (js_or (get manifest ''label'') (get manifest ''label'')) of
        Inl e \<Rightarrow> Inl e
      | Inr label \<Rightarrow>
          (if label \<noteq> [] then Inr label
           else (case extractIdFromManifest manifest manifestUrl of
                   Inl e \<Rightarrow> Inl e
                 | Inr ident \<Rightarrow> Inr (str_or ident ''[untitled IIIF manifest]''))))"

text \<open>The record is the object literal of lines 382 to 387 with the optional keys of
  lines 389 to 400 added in that order.\<close>

definition manifestToCSLItem :: "'u url_api \<Rightarrow> jsval \<Rightarrow> string \<Rightarrow> error + jsval" where
  "manifestToCSLItem U manifest manifestUrl =
     (if nullish manifest then Inl TypeError
      else
        (case title_of manifest manifestUrl of
           Inl e \<Rightarrow> Inl e
         | Inr title \<Rightarrow>
        (case extractIdFromManifest manifest manifestUrl of
           Inl e \<Rightarrow> Inl e
         | Inr extracted \<Rightarrow>
        (let ident = str_or extracted title
         in (case extractAuthors manifest of
               Inl e \<Rightarrow> Inl e
             | Inr authors \<Rightarrow>
           (case extractDate manifest of
               Inl e \<Rightarrow> Inl e
             | Inr issued \<Rightarrow>
           (case extractPublisher manifest of
               Inl e \<Rightarrow> Inl e
             | Inr publisher \<Rightarrow>
           (case inferTypeFromMetadata manifest of
               Inl e \<Rightarrow> Inl e
             | Inr ty \<Rightarrow>
           (let homepage = extractHomepageURL manifest
            in (case buildIiifNote manifest manifestUrl of
                  Inl e \<Rightarrow> Inl e
                | Inr note \<Rightarrow>
              (let trimmedManifestUrl = trimManifestDirectory U manifestUrl
               in Inr (JObj
                    ([(''id'', JStr ident),
                      (''type'', JStr ty),
                      (''title'', JStr title),
                      (''URL'', js_or (JStr homepage)
                                  (js_or (get manifest ''@id'')
                                     (js_or (get manifest ''id'')
                                        (js_or (JStr trimmedManifestUrl) (JStr [])))))]
                     @ (if length authors > 0 then [(''author'', JArr authors)] else [])
                     @ (if issued \<noteq> []
                        then [(''issued'', JObj [(''date-parts'', JArr [JArr [JStr issued]])])]
                        else [])
                     @ (if publisher \<noteq> [] then [(''publisher'', JStr publisher)] else [])
                     @ (if note \<noteq> [] then [(''note'', JStr note)] else []))))))))))))))"

section \<open>Retrieval Pipeline\<close>

definition looksLikeIIIFManifest :: "string \<Rightarrow> bool" where
  "looksLikeIIIFManifest text = (if text = [] then False else contains text ''iiif.io'')"

text \<open>What the network gives for one request: \<open>res.ok\<close>, \<open>res.status\<close> and the body
  that \<open>res.text()\<close> reads (\<open>None\<close> when reading it fails).\<close>

record response =
  ok :: bool
  status :: nat
  body :: "string option"

text \<open>The platform around the pipeline: \<open>fetch\<close> with its 15 second abort acts on a
  world \<open>'w\<close> and gives a response or fails (\<open>None\<close>); \<open>JSON.parse\<close> gives a value or
  throws (\<open>None\<close>); \<open>URL\<close> is as above.\<close>

record ('w, 'u) platform =
  http_fetch :: "string \<Rightarrow> 'w \<Rightarrow> response option \<times> 'w"
  json_parse :: "string \<Rightarrow> jsval option"
  url_class :: "'u url_api"

definition fetchManifest :: "('w, 'u) platform \<Rightarrow> string \<Rightarrow> 'w \<Rightarrow> (error + jsval) \<times> 'w" where
  "fetchManifest P url w =
     (case http_fetch P url w of
        (None, w') \<Rightarrow> (Inl NetworkError, w')
      | (Some res, w') \<Rightarrow>
          (if \<not> ok res then (Inl (HttpError (status res)), w')
           else (case body res of
                   None \<Rightarrow> (Inl NetworkError, w')
                 | Some text \<Rightarrow>
                     (if \<not> looksLikeIIIFManifest text then (Inl NotIIIF, w')
                      else (case json_parse P text of
                              None \<Rightarrow> (Inl SyntaxError, w')
                            | Some manifest \<Rightarrow> (Inr manifest, w'))))))"

text \<open>The state of the loop of lines 453 to 464: the items pushed so far and the
  diagnostics written so far, one per failed URL.\<close>

record batch =
  items :: "jsval list"
  diagnostics :: "(string \<times> error) list"

fun urls_loop ::
  "('w, 'u) platform \<Rightarrow> string list \<Rightarrow> batch \<Rightarrow> 'w \<Rightarrow> batch \<times> 'w" where
  "urls_loop P [] b w = (b, w)"
| "urls_loop P (url # urls) b w =
     (if url = [] then urls_loop P urls b w
      else (case fetchManifest P url w of
              (Inl e, w') \<Rightarrow> urls_loop P urls (b\<lparr>diagnostics := diagnostics b @ [(url, e)]\<rparr>) w'
            | (Inr manifest, w') \<Rightarrow>
                (case manifestToCSLItem (url_class P) manifest url of
                   Inl e \<Rightarrow> urls_loop P urls (b\<lparr>diagnostics := diagnostics b @ [(url, e)]\<rparr>) w'
                 | Inr item \<Rightarrow> urls_loop P urls (b\<lparr>items := items b @ [item]\<rparr>) w')))"

text \<open>\<open>manifestUrls\<close> is a list, so the \<open>Array.isArray\<close> guard of line 449 passes.\<close>

definition iiifManifestUrlsToCSL ::
  "('w, 'u) platform \<Rightarrow> string list \<Rightarrow> 'w \<Rightarrow> batch \<times> 'w" where
  "iiifManifestUrlsToCSL P manifestUrls w =
     urls_loop P manifestUrls \<lparr>items = [], diagnostics = []\<rparr> w"

section \<open>Citation-to-Catalog Mapper\<close>

text \<open>The table of lines 196 to 200, an object literal.\<close>

definition MAP :: jsval where
  "MAP = JObj [(''book'', JStr ''book''),
               (''article-journal'', JStr ''journalArticle''),
               (''manuscript'', JStr ''manuscript'')]"

text \<open>\<open>(cslType || "").toLowerCase()\<close> throws unless the value is a string;
  \<open>MAP[t]\<close> is a property read, own properties first and inherited ones after.\<close>

definition mapCslTypeToZoteroItemType :: "jsval \<Rightarrow> error + jsval" where
  "mapCslTypeToZoteroItemType cslType =
     (case js_or cslType (JStr []) of
        JStr s \<Rightarrow>
          (let t = toLowerCase s
           in if truthy (get MAP t) then Inr (get MAP t) else Inr (JStr ''book''))
      | _ \<Rightarrow> Inl TypeError)"

text \<open>\<open>(x || "").trim()\<close>.\<close>

definition trim_or_empty :: "jsval \<Rightarrow> error + string" where
  "trim_or_empty x =
     (case js_or x (JStr []) of JStr s \<Rightarrow> Inr (js_trim s) | _ \<Rightarrow> Inl TypeError)"

text \<open>One turn of the loop of lines 215 to 238: the creators it pushes.\<close>

definition creator_of_author :: "jsval \<Rightarrow> error + jsval list" where
  "creator_of_author a =
     (if nullish a then Inl TypeError
      else (case trim_or_empty (get a ''given'') of
              Inl e \<Rightarrow> Inl e
            | Inr given \<Rightarrow>
          (case trim_or_empty (get a ''family'') of
              Inl e \<Rightarrow> Inl e
            | Inr family \<Rightarrow>
          (case trim_or_empty (get a ''literal'') of
              Inl e \<Rightarrow> Inl e
            | Inr literal \<Rightarrow>
              (if family \<noteq> [] \<or> given \<noteq> []
               then Inr [JObj [(''creatorType'', JStr ''author''),
                               (''firstName'', JStr given),
                               (''lastName'', JStr (str_or family given))]]
               else if literal \<noteq> []
               then Inr [JObj [(''creatorType'', JStr ''author''),
                               (''firstName'', JStr []),
                               (''lastName'', JStr literal)]]
               else Inr [])))))"

fun creators_loop :: "jsval list \<Rightarrow> jsval list \<Rightarrow> error + jsval list" where
  "creators_loop [] creators = Inr creators"
| "creators_loop (a # rest) creators =
     (case creator_of_author a of
        Inl e \<Rightarrow> Inl e
      | Inr cs \<Rightarrow> creators_loop rest (creators @ cs))"

definition mapCslAuthorsToCreators :: "jsval \<Rightarrow> error + jsval list" where
  "mapCslAuthorsToCreators cslItem =
     (if nullish cslItem then Inl TypeError
      else (let authors = (case get cslItem ''author'' of JArr xs \<Rightarrow> xs | _ \<Rightarrow> [])
            in creators_loop authors []))"

text \<open>\<open>String(x).padStart(2, "0")\<close> on the string.\<close>

definition padStart2 :: "string \<Rightarrow> string" where
  "padStart2 s = replicate (2 - length s) CHR ''0'' @ s"

text \<open>\<open>xs[i]\<close>, which is \<open>undefined\<close> past the end.\<close>

definition element :: "jsval list \<Rightarrow> nat \<Rightarrow> jsval" where
  "element xs i = (if i < length xs then xs ! i else JUndefined)"

text \<open>Lines 257 to 266: the year, then the month and the day when they are there.\<close>

definition date_string :: "jsval \<Rightarrow> jsval \<Rightarrow> jsval \<Rightarrow> error + string" where
  "date_string y m d =
     (case js_String y of
        Inl e \<Rightarrow> Inl e
      | Inr out \<Rightarrow>
          (if \<not> nullish m
           then (case js_String m of
                   Inl e \<Rightarrow> Inl e
                 | Inr ms \<Rightarrow>
                     (if \<not> nullish d
                      then (case js_String d of
                              Inl e \<Rightarrow> Inl e
                            | Inr ds \<Rightarrow> Inr (out @ ''-'' @ padStart2 ms @ ''-'' @ padStart2 ds))
                      else Inr (out @ ''-'' @ padStart2 ms)))
           else Inr out))"

text \<open>\<open>mapCslIssuedToZoteroDate\<close>, for an item that is not \<open>null\<close>
  (\<open>cslToZoteroItem\<close> has read \<open>cslItem.type\<close> before).\<close>

definition mapCslIssuedToZoteroDate :: "jsval \<Rightarrow> error + string" where
  "mapCslIssuedToZoteroDate cslItem =
     (let issued = get cslItem ''issued''
      in if \<not> truthy issued then Inr []
         else (case get issued ''date-parts'' of
                 JArr dateparts \<Rightarrow>
                   (case element dateparts 0 of
                      JArr parts \<Rightarrow>
                        (if length parts = 0 then Inr []
                         else
                           (let y = element parts 0; m = element parts 1; d = element parts 2
                            in if \<not> truthy y then Inr [] else date_string y m d))
                    | _ \<Rightarrow> Inr [])
               | _ \<Rightarrow> Inr []))"

text \<open>\<open>if (cslItem[k]) zotItem[k'] = cslItem[k]\<close>.\<close>

definition copy_if_present :: "jsval \<Rightarrow> string \<Rightarrow> string \<Rightarrow> (string \<times> jsval) list" where
  "copy_if_present cslItem k k' = (if truthy (get cslItem k) then [(k', get cslItem k)] else [])"

definition cslToZoteroItem :: "jsval \<Rightarrow> error + jsval" where
  "cslToZoteroItem cslItem =
     (if nullish cslItem then Inl TypeError
      else (case mapCslTypeToZoteroItemType (get cslItem ''type'') of
              Inl e \<Rightarrow> Inl e
            | Inr itemType \<Rightarrow>
          (case mapCslAuthorsToCreators cslItem of
              Inl e \<Rightarrow> Inl e
            | Inr creators \<Rightarrow>
          (case mapCslIssuedToZoteroDate cslItem of
              Inl e \<Rightarrow> Inl e
            | Inr dateStr \<Rightarrow>
               Inr (JObj
                    ([(''itemType'', itemType),
                      (''title'', js_or (get cslItem ''title'') (JStr ''[untitled]'')),
                      (''creators'', JArr creators)]
                     @ (if dateStr \<noteq> [] then [(''date'', JStr dateStr)] else [])
                     @ copy_if_present cslItem ''publisher'' ''publisher''
                     @ copy_if_present cslItem ''archive'' ''archive''
                     @ copy_if_present cslItem ''archive_location'' ''archiveLocation''
                     @ copy_if_present cslItem ''collection-title'' ''libraryCatalog''
                     @ copy_if_present cslItem ''URL'' ''url''
                     @ copy_if_present cslItem ''note'' ''extra''))))))"

section \<open>Notions used to state the properties\<close>

text \<open>What \<open>\b\<close> asks of the text after \<open>ms\<close>: it is empty or starts with a character
  outside \<open>\w\<close>.\<close>

definition follows_boundary :: "string \<Rightarrow> bool" where
  "follows_boundary post = (case post of [] \<Rightarrow> True | d # _ \<Rightarrow> \<not> is_word_char d)"

text \<open>The normalized text of a label or value; the empty string where normalization
  throws.\<close>

definition label_text :: "jsval \<Rightarrow> string" where
  "label_text v = (case iiifLabelToString v of Inr s \<Rightarrow> s | Inl e \<Rightarrow> [])"

text \<open>An entry matches a list of candidate names when its label normalizes to a string
  that equals one of them, letters compared without case, and its value normalizes to a
  string that is not empty.\<close>

definition entry_matches :: "string list \<Rightarrow> jsval \<Rightarrow> bool" where
  "entry_matches keys entry =
     (case iiifLabelToString (get entry ''label'') of
        Inl e \<Rightarrow> False
      | Inr labelStr \<Rightarrow>
          toLowerCase labelStr \<in> set (map toLowerCase keys) \<and>
          (case iiifLabelToString (get entry ''value'') of
             Inl e \<Rightarrow> False
           | Inr valueStr \<Rightarrow> valueStr \<noteq> []))"

text \<open>The normalized value of the first entry, in document order, that matches; the
  empty string when none does.\<close>

definition first_matching_value :: "string list \<Rightarrow> jsval list \<Rightarrow> string" where
  "first_matching_value keys entries =
     (case find (entry_matches keys) entries of
        None \<Rightarrow> []
      | Some entry \<Rightarrow> label_text (get entry ''value''))"

text \<open>The entries that the loops over the metadata visit.\<close>

definition metadata_entries :: "jsval \<Rightarrow> jsval list" where
  "metadata_entries manifest =
     (case iterate (metadata_of manifest) of Inr entries \<Rightarrow> entries | Inl e \<Rightarrow> [])"

text \<open>A year as the date pattern sees it: four digits, from 1000 to 1999 or from 2000 to
  2099.\<close>

definition is_year :: "string \<Rightarrow> bool" where
  "is_year y =
     (case y of
        [a, b, c, d] \<Rightarrow>
          (a = CHR ''1'' \<and> is_digit b \<and> is_digit c \<and> is_digit d) \<or>
          (a = CHR ''2'' \<and> b = CHR ''0'' \<and> is_digit c \<and> is_digit d)
      | _ \<Rightarrow> False)"

text \<open>\<open>y\<close> is a year that occurs in \<open>s\<close> at offset \<open>k\<close>.\<close>

definition year_occurs_at :: "string \<Rightarrow> nat \<Rightarrow> string \<Rightarrow> bool" where
  "year_occurs_at s k y = (\<exists>pre post. s = pre @ y @ post \<and> length pre = k \<and> is_year y)"

text \<open>\<open>Array.isArray(cslItem.author) ? cslItem.author : []\<close>.\<close>

definition authors_of :: "jsval \<Rightarrow> jsval list" where
  "authors_of cslItem = (case get cslItem ''author'' of JArr xs \<Rightarrow> xs | _ \<Rightarrow> [])"

text \<open>The trimmed \<open>given\<close>, \<open>family\<close> or \<open>literal\<close> of an author; empty when the field
  is absent or empty.\<close>

definition trimmed_part :: "jsval \<Rightarrow> string \<Rightarrow> string" where
  "trimmed_part a k = (case get a k of JStr s \<Rightarrow> js_trim s | _ \<Rightarrow> [])"

text \<open>A creator of the catalog item.\<close>

definition creator_record :: "string \<Rightarrow> string \<Rightarrow> jsval" where
  "creator_record firstName lastName =
     JObj [(''creatorType'', JStr ''author''),
           (''firstName'', JStr firstName),
           (''lastName'', JStr lastName)]"

text \<open>What creator mapping emits for one author, in the words of the specification.\<close>

definition creators_for :: "jsval \<Rightarrow> jsval list" where
  "creators_for a =
     (let given = trimmed_part a ''given'';
          family = trimmed_part a ''family'';
          literal = trimmed_part a ''literal''
      in if given \<noteq> [] \<or> family \<noteq> []
         then [creator_record given (if family = [] then given else family)]
         else if literal \<noteq> [] then [creator_record [] literal]
         else [])"

text \<open>A field of a well-typed citation record: a string, or absent.\<close>

definition string_or_falsy :: "jsval \<Rightarrow> bool" where
  "string_or_falsy v = (case v of JStr s \<Rightarrow> True | _ \<Rightarrow> \<not> truthy v)"

definition well_typed_author :: "jsval \<Rightarrow> bool" where
  "well_typed_author a =
     (\<not> nullish a \<and> string_or_falsy (get a ''given'') \<and> string_or_falsy (get a ''family'')
      \<and> string_or_falsy (get a ''literal''))"


text \<open>The letters A to Z.\<close>

definition is_upper :: "char \<Rightarrow> bool" where
  "is_upper c = (65 \<le> (of_char c :: nat) \<and> (of_char c :: nat) \<le> 90)"

text \<open>A value in which no object, at any depth, has a property named \<open>toString\<close>:
  every part of such a value can be converted to a string.\<close>

fun plain :: "jsval \<Rightarrow> bool" where
  "plain (JObj kvs) =
     (''toString'' \<notin> set (map fst kvs) \<and> list_all (\<lambda>kv. plain (snd kv)) kvs)"
| "plain (JArr xs) = list_all plain xs"
| "plain v = True"

text \<open>A manifest as the data model describes it: not \<open>null\<close>, without a property named
  \<open>toString\<close> in any of its objects, its metadata absent or a sequence (an array, or a
  string, of which the loop visits the characters) of entries that are not \<open>null\<close>.\<close>

definition well_formed_manifest :: "jsval \<Rightarrow> bool" where
  "well_formed_manifest manifest =
     (\<not> nullish manifest \<and> plain manifest \<and>
      (case iterate (metadata_of manifest) of
         Inr entries \<Rightarrow> list_all (\<lambda>e. \<not> nullish e) entries
       | Inl e \<Rightarrow> False))"

text \<open>What one turn of the pipeline's loop does with a non-empty URL: retrieval followed by
  conversion, with the error of whichever fails.\<close>

definition process_url ::
  "('w, 'u) platform \<Rightarrow> string \<Rightarrow> 'w \<Rightarrow> (error + jsval) \<times> 'w" where
  "process_url P url w =
     (case fetchManifest P url w of
        (Inl e, w') \<Rightarrow> (Inl e, w')
      | (Inr manifest, w') \<Rightarrow> (manifestToCSLItem (url_class P) manifest url, w'))"

text \<open>The outcome of every non-empty URL, in input order, each retrieval acting on the world
  that the retrievals before it left.\<close>

fun outcomes ::
  "('w, 'u) platform \<Rightarrow> string list \<Rightarrow> 'w \<Rightarrow> (string \<times> (error + jsval)) list" where
  "outcomes P [] w = []"
| "outcomes P (url # urls) w =
     (if url = [] then outcomes P urls w
      else (url, fst (process_url P url w)) # outcomes P urls (snd (process_url P url w)))"

text \<open>The records of the successful outcomes, and the diagnostics of the failed ones.\<close>

fun successes :: "(string \<times> (error + jsval)) list \<Rightarrow> jsval list" where
  "successes [] = []"
| "successes ((url, Inr item) # rest) = item # successes rest"
| "successes ((url, Inl e) # rest) = successes rest"

fun failures :: "(string \<times> (error + jsval)) list \<Rightarrow> (string \<times> error) list" where
  "failures [] = []"
| "failures ((url, Inr item) # rest) = failures rest"
| "failures ((url, Inl e) # rest) = (url, e) # failures rest"

section \<open>Example inputs\<close>

definition ex_type_both :: jsval where
  "ex_type_both = JObj [(''label'', JStr ''A Journal of Manuscript Studies'')]"

definition ex_type_amsterdam :: jsval where
  "ex_type_amsterdam = JObj [(''label'', JStr ''View of Amsterdam'')]"

definition ex_two_entries :: jsval where
  "ex_two_entries =
     JObj [(''metadata'', JArr [
        JObj [(''label'', JStr ''Creator''), (''value'', JStr ''Jane Doe'')],
        JObj [(''label'', JStr ''Author''), (''value'', JStr ''Bob Smith'')]])]"

definition ex_date_1623 :: jsval where
  "ex_date_1623 =
     JObj [(''metadata'', JArr [
        JObj [(''label'', JStr ''Date''), (''value'', JStr ''Printed in London, 1623'')]])]"

definition ex_date_1600s :: jsval where
  "ex_date_1600s =
     JObj [(''metadata'', JArr [
        JObj [(''label'', JStr ''Date''), (''value'', JStr ''circa 1600s'')]])]"

definition ex_date_century :: jsval where
  "ex_date_century =
     JObj [(''metadata'', JArr [
        JObj [(''label'', JStr ''Date''), (''value'', JStr '' 16th century '')]])]"

definition ex_csl_authors :: jsval where
  "ex_csl_authors =
     JObj [(''type'', JStr ''article-journal''),
           (''title'', JStr ''Letters''),
           (''author'', JArr [
              JObj [(''given'', JStr '' Jane Mary ''), (''family'', JStr ''Doe'')],
              JObj [(''given'', JStr ''Plato'')],
              JObj [(''literal'', JStr ''The Academy'')],
              JObj [(''given'', JStr ''  '')]])]"

definition ex_csl_constructor :: jsval where
  "ex_csl_constructor = JObj [(''type'', JStr ''constructor''), (''title'', JStr ''Letters'')]"



text \<open>A stand-in for the platform's \<open>URL\<close> class, enough for the examples. A URL is
  its scheme and authority, its path, its query and its fragment, each as it is written
  in the string form, and a flag that says whether the path is opaque. The stand-in
  accepts the URLs of the origin \<open>https://example.org\<close>, whose path is hierarchical,
  and the \<open>data:\<close> URLs, whose path is opaque, both cut at \<open>?\<close> and \<open>#\<close>, and
  rejects all others as the constructor rejects a relative URL. As in the platform's
  class, setting the path of a URL with an opaque path does nothing.\<close>

type_synonym ex_url = "bool \<times> string \<times> string \<times> string \<times> string"

definition ex_url_cut :: "bool \<Rightarrow> string \<Rightarrow> string \<Rightarrow> ex_url" where
  "ex_url_cut opaque front rest =
     (let path = takeWhile (\<lambda>c. c \<noteq> CHR ''?'' \<and> c \<noteq> CHR ''#'') rest;
          rest' = dropWhile (\<lambda>c. c \<noteq> CHR ''?'' \<and> c \<noteq> CHR ''#'') rest
      in (opaque, front, path,
          takeWhile (\<lambda>c. c \<noteq> CHR ''#'') rest',
          dropWhile (\<lambda>c. c \<noteq> CHR ''#'') rest'))"

definition ex_url_api :: "ex_url url_api" where
  "ex_url_api =
     \<lparr>url_parse = (\<lambda>s.
        if starts_with s ''https://example.org/''
        then Some (ex_url_cut False ''https://example.org'' (drop 19 s))
        else if starts_with s ''data:''
        then Some (ex_url_cut True ''data:'' (drop 5 s))
        else None),
      url_set_search = (\<lambda>v (opaque, front, path, search, hash). (opaque, front, path, v, hash)),
      url_set_hash = (\<lambda>v (opaque, front, path, search, hash). (opaque, front, path, search, v)),
      url_pathname = (\<lambda>(opaque, front, path, search, hash). path),
      url_set_pathname = (\<lambda>v (opaque, front, path, search, hash).
        if opaque then (opaque, front, path, search, hash)
        else (opaque, front, v, search, hash)),
      url_toString = (\<lambda>(opaque, front, path, search, hash). front @ path @ search @ hash)\<rparr>"

definition ex_manifest_unconvertible :: jsval where
  "ex_manifest_unconvertible = JObj [(''label'', JArr [JObj [(''toString'', JNum ''1'')]])]"

definition ex_manifest_id_only :: jsval where
  "ex_manifest_id_only = JObj [(''@id'', JStr ''https://example.org/iiif/x/manifest'')]"

definition ex_manifest_empty :: jsval where
  "ex_manifest_empty = JObj []"

definition ex_manifest_folio :: jsval where
  "ex_manifest_folio =
     JObj [(''@context'', JStr ''http://iiif.io/api/presentation/2/context.json''),
           (''@id'', JStr ''https://example.org/iiif/folio/manifest.json''),
           (''label'', JStr ''First Folio''),
           (''metadata'', JArr [
              JObj [(''label'', JStr ''Author''), (''value'', JStr ''William Shakespeare'')],
              JObj [(''label'', JStr ''Date''), (''value'', JStr ''Printed in London, 1623'')]])]"

text \<open>A platform for the examples: two manifests that are served and parsed, and a 404
  response for every other URL; the world counts the requests.\<close>

definition ex_body_a :: string where
  "ex_body_a = ''{\"@context\": \"http://iiif.io/api/presentation/2/context.json\", \"label\": \"Book A\"}''"

definition ex_body_c :: string where
  "ex_body_c = ''{\"@context\": \"http://iiif.io/api/presentation/2/context.json\", \"label\": \"Book C\"}''"

definition ex_platform :: "(nat, ex_url) platform" where
  "ex_platform =
     \<lparr>http_fetch = (\<lambda>url n.
        (if url = ''https://example.org/a/manifest.json''
         then Some \<lparr>ok = True, status = 200, body = Some ex_body_a\<rparr>
         else if url = ''https://example.org/c/manifest.json''
         then Some \<lparr>ok = True, status = 200, body = Some ex_body_c\<rparr>
         else Some \<lparr>ok = False, status = 404, body = Some ''Not Found''\<rparr>, Suc n)),
      json_parse = (\<lambda>text.
        if text = ex_body_a
        then Some (JObj [(''@context'', JStr ''http://iiif.io/api/presentation/2/context.json''),
                         (''label'', JStr ''Book A'')])
        else if text = ex_body_c
        then Some (JObj [(''@context'', JStr ''http://iiif.io/api/presentation/2/context.json''),
                         (''label'', JStr ''Book C'')])
        else None),
      url_class = ex_url_api\<rparr>"

section \<open>Properties of the conversion to strings\<close>

lemma js_or_same: "js_or a a = a"
  by (simp add: js_or_def)

lemma plain_not_throws: "plain v \<Longrightarrow> \<not> throws_on_String v"
proof (induction v rule: throws_on_String.induct)
  case (1 kvs)
  then show ?case by simp
next
  case (2 xs)
  then show ?case by (auto simp: list_all_iff list_ex_iff)
qed simp_all

lemma plain_js_String: "plain v \<Longrightarrow> js_String v = Inr (string_of v)"
  by (simp add: js_String_def plain_not_throws)

lemma plain_js_Strings: "list_all plain vs \<Longrightarrow> js_Strings vs = Inr (map string_of vs)"
  by (induction vs) (simp_all add: plain_js_String)

lemma plain_object_prototype: "plain (object_prototype k)"
  by (simp add: object_prototype_def)

lemma plain_get: "plain v \<Longrightarrow> plain (get v k)"
proof (cases v)
  case (JObj kvs)
  assume p: "plain v"
  show ?thesis
  proof (cases "map_of kvs k")
    case None
    then show ?thesis using JObj by (simp add: plain_object_prototype)
  next
    case (Some x)
    then have "(k, x) \<in> set kvs" by (rule map_of_SomeD)
    then have "plain x" using p JObj by (auto simp: list_all_iff)
    then show ?thesis using JObj Some by simp
  qed
qed simp_all

lemma plain_js_or: "plain a \<Longrightarrow> plain b \<Longrightarrow> plain (js_or a b)"
  by (simp add: js_or_def)

lemma plain_label_piece: "plain item \<Longrightarrow> list_all plain (label_piece item)"
proof -
  assume p: "plain item"
  have "plain (get item ''@value'')" using p by (rule plain_get)
  then show ?thesis using p by (cases item) (simp_all add: label_piece_def)
qed

lemma plain_lang_pieces: "plain vals \<Longrightarrow> list_all plain (lang_pieces vals)"
  by (cases vals) (auto simp: lang_pieces_def list_all_iff)

lemma plain_join_pieces:
  "list_all plain vs \<Longrightarrow> join_pieces vs = Inr (js_trim (join '' '' (map string_of vs)))"
  by (simp add: join_pieces_def plain_js_Strings)

lemma iiifLabelToString_total:
  assumes "plain label"
  shows "\<exists>s. iiifLabelToString label = Inr s"
proof (cases "truthy label")
  case False
  then show ?thesis by (simp add: iiifLabelToString_def)
next
  case True
  show ?thesis
  proof (cases label)
    case (JObj kvs)
    have "list_all plain (concat (map (\<lambda>lang. lang_pieces (get label lang)) (map fst kvs)))"
      using plain_lang_pieces [OF plain_get [OF assms]] by (auto simp: list_all_iff)
    then show ?thesis
      using True JObj by (simp add: iiifLabelToString_def plain_join_pieces)
  next
    case (JArr items)
    have "list_all plain (concat (map label_piece items))"
      using assms JArr plain_label_piece by (auto simp: list_all_iff)
    then show ?thesis
      using True JArr by (simp add: iiifLabelToString_def plain_join_pieces)
  qed (use True assms in \<open>simp_all add: iiifLabelToString_def plain_js_String\<close>)
qed

lemma plain_iterate: "plain v \<Longrightarrow> iterate v = Inr entries \<Longrightarrow> list_all plain entries"
  by (cases v) (auto simp: iterate_def list_all_iff)

lemma plain_metadata_of: "plain manifest \<Longrightarrow> plain (metadata_of manifest)"
  by (simp add: metadata_of_def plain_js_or plain_get)

lemma entry_field_get: "entry_field entry k = get entry k"
  by (simp add: entry_field_def js_or_same)

lemma plain_entry_field: "plain entry \<Longrightarrow> \<exists>s. iiifLabelToString (entry_field entry k) = Inr s"
  unfolding entry_field_get by (rule iiifLabelToString_total) (rule plain_get)

section \<open>Properties of the Label Normalizer\<close>

lemma dropWhile_hd_id: "xs \<noteq> [] \<Longrightarrow> \<not> P (hd xs) \<Longrightarrow> dropWhile P xs = xs"
  by (cases xs) auto

lemma dropWhile_idem: "dropWhile P (dropWhile P s) = dropWhile P s"
  by (induction s) auto

lemma js_trim_Nil: "js_trim [] = []"
  by (simp add: js_trim_def)

lemma js_trim_decomp:
  "dropWhile is_ws s = js_trim s @ rev (takeWhile is_ws (rev (dropWhile is_ws s)))"
proof -
  let ?t = "dropWhile is_ws s"
  have "rev ?t = takeWhile is_ws (rev ?t) @ dropWhile is_ws (rev ?t)" by simp
  then have "rev (rev ?t) = rev (takeWhile is_ws (rev ?t) @ dropWhile is_ws (rev ?t))"
    by (rule arg_cong)
  then show ?thesis unfolding js_trim_def by (simp only: rev_rev_ident rev_append)
qed

lemma js_trim_hd: "js_trim s \<noteq> [] \<Longrightarrow> \<not> is_ws (hd (js_trim s))"
proof -
  assume ne: "js_trim s \<noteq> []"
  let ?t = "dropWhile is_ws s"
  have t_eq: "?t = js_trim s @ rev (takeWhile is_ws (rev ?t))" by (rule js_trim_decomp)
  have t_ne: "?t \<noteq> []" using t_eq ne by (metis append_is_Nil_conv)
  have "\<not> is_ws (hd ?t)" using t_ne by (rule hd_dropWhile)
  moreover have "hd ?t = hd (js_trim s)" using t_eq ne by (metis hd_append2)
  ultimately show "\<not> is_ws (hd (js_trim s))" by simp
qed

lemma js_trim_last: "js_trim s \<noteq> [] \<Longrightarrow> \<not> is_ws (last (js_trim s))"
proof -
  assume ne: "js_trim s \<noteq> []"
  let ?r = "dropWhile is_ws (rev (dropWhile is_ws s))"
  have r: "js_trim s = rev ?r" by (simp add: js_trim_def)
  then have "?r \<noteq> []" using ne by simp
  then have "\<not> is_ws (hd ?r)" by (rule hd_dropWhile)
  moreover have "last (js_trim s) = hd ?r"
    unfolding r using \<open>?r \<noteq> []\<close> by (simp add: last_rev)
  ultimately show ?thesis by simp
qed

lemma js_trim_leading: "dropWhile is_ws (js_trim s) = js_trim s"
proof (cases "js_trim s = []")
  case True
  then show ?thesis by simp
next
  case False
  then show ?thesis using js_trim_hd by (intro dropWhile_hd_id)
qed

lemma js_trim_idem: "js_trim (js_trim s) = js_trim s"
proof -
  have "js_trim (js_trim s) = rev (dropWhile is_ws (rev (js_trim s)))"
    unfolding js_trim_def [of "js_trim s"] by (simp only: js_trim_leading)
  also have "rev (js_trim s) = dropWhile is_ws (rev (dropWhile is_ws s))"
    by (simp add: js_trim_def)
  also have "rev (dropWhile is_ws (dropWhile is_ws (rev (dropWhile is_ws s)))) = js_trim s"
    by (simp only: dropWhile_idem js_trim_def)
  finally show ?thesis .
qed

lemma list_all_takeWhile: "list_all P (takeWhile P xs)"
  by (induction xs) auto

lemma js_trim_between:
  "\<exists>pre post. x = pre @ js_trim x @ post \<and> list_all is_ws pre \<and> list_all is_ws post"
proof -
  let ?t = "dropWhile is_ws x"
  have "x = takeWhile is_ws x @ ?t" by simp
  then have "x = takeWhile is_ws x @ js_trim x @ rev (takeWhile is_ws (rev ?t))"
    using js_trim_decomp [of x] by simp
  moreover have "list_all is_ws (takeWhile is_ws x)" by (rule list_all_takeWhile)
  moreover have "list_all is_ws (rev (takeWhile is_ws (rev ?t)))"
    using list_all_takeWhile [of is_ws "rev ?t"] by (simp add: list_all_iff)
  ultimately show ?thesis by blast
qed

lemma iiifLabelToString_Str: "iiifLabelToString (JStr x) = Inr (js_trim x)"
  by (simp add: iiifLabelToString_def js_trim_Nil)

text \<open>
  C8. Label normalization is idempotent on strings. Normalizing a string \<open>x\<close> never
  throws; normalizing the string \<open>r\<close> that it returns gives \<open>r\<close> again; and \<open>r\<close> is
  \<open>x\<close> trimmed with its content unchanged: \<open>x\<close> is \<open>r\<close> between a prefix and a suffix
  of white space, and \<open>r\<close> is empty or has no white space at either end.
\<close>

theorem C8_normalize_idempotent:
  "\<exists>r. iiifLabelToString (JStr x) = Inr r
     \<and> iiifLabelToString (JStr r) = Inr r
     \<and> r = js_trim x
     \<and> (\<exists>pre post. x = pre @ r @ post \<and> list_all is_ws pre \<and> list_all is_ws post)
     \<and> (r = [] \<or> (\<not> is_ws (hd r) \<and> \<not> is_ws (last r)))"
proof (rule exI [where x = "js_trim x"], intro conjI)
  show "iiifLabelToString (JStr x) = Inr (js_trim x)"
    by (rule iiifLabelToString_Str)
  show "iiifLabelToString (JStr (js_trim x)) = Inr (js_trim x)"
    by (simp only: iiifLabelToString_Str js_trim_idem)
  show "js_trim x = js_trim x" by (rule refl)
  show "\<exists>pre post. x = pre @ js_trim x @ post \<and> list_all is_ws pre \<and> list_all is_ws post"
    by (rule js_trim_between)
  show "js_trim x = [] \<or> (\<not> is_ws (hd (js_trim x)) \<and> \<not> is_ws (last (js_trim x)))"
    using js_trim_hd js_trim_last by blast
qed

lemma iiifLabelToString_examples:
  "iiifLabelToString (JStr ''  First Folio '') = Inr ''First Folio'' \<and>
   iiifLabelToString (JObj [(''en'', JArr [JStr ''Foo'', JStr ''Bar''])]) = Inr ''Foo Bar'' \<and>
   iiifLabelToString (JArr [JObj [(''@value'', JStr ''Foo'')], JNull, JStr ''Bar'']) = Inr ''Foo Bar'' \<and>
   iiifLabelToString (JArr [JObj [(''toString'', JNum ''1'')]]) = Inl TypeError"
  by code_simp

section \<open>Properties of type inference\<close>


lemma starts_with_iff: "starts_with s p \<longleftrightarrow> (\<exists>post. s = p @ post)"
  by (induction s p rule: starts_with.induct) auto

lemma contains_iff: "contains s p \<longleftrightarrow> (\<exists>pre post. s = pre @ p @ post)"
proof (induction s)
  case Nil
  then show ?case by auto
next
  case (Cons c cs)
  show ?case
  proof
    assume "contains (c # cs) p"
    then consider "starts_with (c # cs) p" | "contains cs p" by auto
    then show "\<exists>pre post. c # cs = pre @ p @ post"
    proof cases
      case 1
      then obtain post where "c # cs = p @ post" by (auto simp: starts_with_iff)
      then have "c # cs = [] @ p @ post" by simp
      then show ?thesis by blast
    next
      case 2
      then obtain pre post where "cs = pre @ p @ post" using Cons.IH by blast
      then have "c # cs = (c # pre) @ p @ post" by simp
      then show ?thesis by blast
    qed
  next
    assume "\<exists>pre post. c # cs = pre @ p @ post"
    then obtain pre post where eq: "c # cs = pre @ p @ post" by blast
    show "contains (c # cs) p"
    proof (cases pre)
      case Nil
      then have "starts_with (c # cs) p" using eq by (auto simp: starts_with_iff)
      then show ?thesis by simp
    next
      case (Cons a pre')
      then have "cs = pre' @ p @ post" using eq by simp
      then have "contains cs p" using Cons.IH by blast
      then show ?thesis by simp
    qed
  qed
qed

lemma contains_append_left: "contains a p \<Longrightarrow> contains (a @ b) p"
proof -
  assume "contains a p"
  then obtain pre post where "a = pre @ p @ post" by (auto simp: contains_iff)
  then have "a @ b = pre @ p @ (post @ b)" by simp
  then show ?thesis unfolding contains_iff by blast
qed

lemma toLowerCase_append: "toLowerCase (a @ b) = toLowerCase a @ toLowerCase b"
  by (simp add: toLowerCase_def)

lemma ms_boundary_iff:
  "ms_boundary s \<longleftrightarrow> (\<exists>pre post. s = pre @ ''ms'' @ post \<and> follows_boundary post)"
proof (induction s)
  case Nil
  then show ?case by simp
next
  case (Cons c cs)
  have here: "(starts_with (c # cs) ''ms'' \<and> (case drop 1 cs of [] \<Rightarrow> True | d # _ \<Rightarrow> \<not> is_word_char d))
      \<longleftrightarrow> (\<exists>post. c # cs = ''ms'' @ post \<and> follows_boundary post)"
    by (cases cs) (auto simp: follows_boundary_def starts_with_iff)
  show ?case
  proof
    assume "ms_boundary (c # cs)"
    then consider "\<exists>post. c # cs = ''ms'' @ post \<and> follows_boundary post" | "ms_boundary cs"
      using here by auto
    then show "\<exists>pre post. c # cs = pre @ ''ms'' @ post \<and> follows_boundary post"
    proof cases
      case 1
      then obtain post where "c # cs = [] @ ''ms'' @ post \<and> follows_boundary post" by auto
      then show ?thesis by blast
    next
      case 2
      then obtain pre post where "cs = pre @ ''ms'' @ post \<and> follows_boundary post"
        using Cons.IH by blast
      then have "c # cs = (c # pre) @ ''ms'' @ post \<and> follows_boundary post" by simp
      then show ?thesis by blast
    qed
  next
    assume "\<exists>pre post. c # cs = pre @ ''ms'' @ post \<and> follows_boundary post"
    then obtain pre post where eq: "c # cs = pre @ ''ms'' @ post" and fb: "follows_boundary post"
      by blast
    show "ms_boundary (c # cs)"
    proof (cases pre)
      case Nil
      then have "\<exists>post. c # cs = ''ms'' @ post \<and> follows_boundary post" using eq fb by auto
      then show ?thesis using here by simp
    next
      case (Cons a pre')
      then have "cs = pre' @ ''ms'' @ post" using eq by simp
      then have "ms_boundary cs" using Cons.IH fb by blast
      then show ?thesis by simp
    qed
  qed
qed

lemma inferTypeFromMetadata_Inr:
  assumes "inferTypeFromMetadata manifest = Inr t"
  shows "\<exists>label description ty.
           iiifLabelToString (get manifest ''label'') = Inr label \<and>
           iiifLabelToString (get manifest ''description'') = Inr description \<and>
           getFirstMetadataValue manifest [''Type'', ''type''] = Inr ty \<and>
           t = classify_haystack
                 (type_haystack label (filter (\<lambda>s. s \<noteq> []) [description, ty]))"
  using assms
  by (auto simp: inferTypeFromMetadata_def js_or_same Let_def split: if_splits sum.splits)

text \<open>
  C5, as it holds of the code. When type inference returns, the label and the
  description have been normalized and the \<open>Type\<close> metadata value looked up without
  a throw, and the result is decided by the lower-cased haystack made of the normalized
  label, a space, and the non-empty ones of the normalized description and the \<open>Type\<close>
  metadata value joined by spaces: \<open>manuscript\<close> when the haystack contains
  \<open>manuscript\<close> or \<open>codex\<close>, or contains \<open>ms\<close> followed by a word boundary; else
  \<open>article-journal\<close> when it contains \<open>article\<close>, \<open>journal\<close> or \<open>periodical\<close>;
  else \<open>book\<close>. The first rule wins: a label that contains \<open>manuscript\<close> infers
  \<open>manuscript\<close> whatever else it contains.
\<close>

theorem C5_type_inference:
  assumes "inferTypeFromMetadata manifest = Inr t"
  shows "\<exists>label description ty haystack.
           iiifLabelToString (get manifest ''label'') = Inr label \<and>
           iiifLabelToString (get manifest ''description'') = Inr description \<and>
           getFirstMetadataValue manifest [''Type'', ''type''] = Inr ty \<and>
           haystack = toLowerCase (label @ '' '' @
                        join '' '' (filter (\<lambda>s. s \<noteq> []) [description, ty])) \<and>
           t = (if contains haystack ''manuscript'' \<or> contains haystack ''codex'' \<or>
                   (\<exists>pre post. haystack = pre @ ''ms'' @ post \<and> follows_boundary post)
                then ''manuscript''
                else if contains haystack ''article'' \<or> contains haystack ''journal'' \<or>
                        contains haystack ''periodical''
                then ''article-journal''
                else ''book'') \<and>
           (contains (toLowerCase label) ''manuscript'' \<longrightarrow> t = ''manuscript'')"
proof -
  obtain label description ty
    where l: "iiifLabelToString (get manifest ''label'') = Inr label"
      and d: "iiifLabelToString (get manifest ''description'') = Inr description"
      and ty: "getFirstMetadataValue manifest [''Type'', ''type''] = Inr ty"
      and t: "t = classify_haystack
                 (type_haystack label (filter (\<lambda>s. s \<noteq> []) [description, ty]))"
    using inferTypeFromMetadata_Inr [OF assms] by blast
  let ?h = "toLowerCase (label @ '' '' @
              join '' '' (filter (\<lambda>s. s \<noteq> []) [description, ty]))"
  have t_eq: "t = (if contains ?h ''manuscript'' \<or> contains ?h ''codex'' \<or>
                   (\<exists>pre post. ?h = pre @ ''ms'' @ post \<and> follows_boundary post)
                then ''manuscript''
                else if contains ?h ''article'' \<or> contains ?h ''journal'' \<or>
                        contains ?h ''periodical''
                then ''article-journal''
                else ''book'')"
    unfolding t classify_haystack_def type_haystack_def re_manuscript_def re_article_def
      ms_boundary_iff by (rule refl)
  have prio: "contains (toLowerCase label) ''manuscript'' \<longrightarrow> t = ''manuscript''"
  proof
    assume "contains (toLowerCase label) ''manuscript''"
    then have "contains ?h ''manuscript''"
      unfolding toLowerCase_append by (rule contains_append_left)
    then show "t = ''manuscript''" using t_eq by simp
  qed
  show ?thesis using l d ty t_eq prio by blast
qed

lemma ex_type_both_label:
  "iiifLabelToString (get ex_type_both ''label'') = Inr ''A Journal of Manuscript Studies'' \<and>
   contains (toLowerCase ''A Journal of Manuscript Studies'') ''journal'' \<and>
   contains (toLowerCase ''A Journal of Manuscript Studies'') ''manuscript''"
  by code_simp

theorem C5_type_inference_witness:
  "inferTypeFromMetadata ex_type_both = Inr ''manuscript'' \<and>
   (\<exists>ty. getFirstMetadataValue ex_type_both [''Type'', ''type''] = Inr ty)"
proof -
  have h: "inferTypeFromMetadata ex_type_both = Inr ''manuscript''" by code_simp
  show ?thesis using h C5_type_inference [OF h] by blast
qed

text \<open>The letters \<open>ms\<close> inside a word do not make a manuscript: the haystack of
  \<open>View of Amsterdam\<close> contains \<open>ms\<close> and the inferred type is \<open>book\<close>.\<close>

theorem C5_ms_inside_word_counterexample:
  "iiifLabelToString (get ex_type_amsterdam ''label'') = Inr ''View of Amsterdam'' \<and>
   contains (type_haystack ''View of Amsterdam'' []) ''ms'' \<and>
   inferTypeFromMetadata ex_type_amsterdam = Inr ''book''"
  by code_simp

section \<open>Properties of Metadata Lookup\<close>

lemma match_keys_eq:
  "match_keys entry labelStr keys =
     (if toLowerCase labelStr \<in> set (map toLowerCase keys)
      then (case iiifLabelToString (get entry ''value'') of
              Inl e \<Rightarrow> Inl e
            | Inr valueStr \<Rightarrow> if valueStr \<noteq> [] then Inr (Some valueStr) else Inr None)
      else Inr None)"
  by (induction keys) (auto simp: entry_field_get split: sum.splits)

lemma match_keys_cong:
  assumes "set (map toLowerCase keys') = set (map toLowerCase keys)"
  shows "match_keys entry labelStr keys' = match_keys entry labelStr keys"
  unfolding match_keys_eq assms by (rule refl)

lemma metadata_loop_cong:
  assumes "set (map toLowerCase keys') = set (map toLowerCase keys)"
  shows "metadata_loop entries keys' = metadata_loop entries keys"
proof (induction entries)
  case Nil
  show ?case by simp
next
  case (Cons e es)
  show ?case
    unfolding metadata_loop.simps match_keys_cong [OF assms] Cons.IH by (rule refl)
qed

lemma getFirstMetadataValue_order:
  assumes "set (map toLowerCase keys') = set (map toLowerCase keys)"
  shows "getFirstMetadataValue manifest keys' = getFirstMetadataValue manifest keys"
  unfolding getFirstMetadataValue_def metadata_loop_cong [OF assms] by (rule refl)

lemma match_keys_Some:
  "match_keys entry labelStr keys = Inr (Some v) \<longleftrightarrow>
     toLowerCase labelStr \<in> set (map toLowerCase keys) \<and>
     iiifLabelToString (get entry ''value'') = Inr v \<and> v \<noteq> []"
  unfolding match_keys_eq by (auto split: sum.splits)

lemma match_keys_None:
  "match_keys entry labelStr keys = Inr None \<longleftrightarrow>
     toLowerCase labelStr \<notin> set (map toLowerCase keys) \<or>
     iiifLabelToString (get entry ''value'') = Inr []"
  unfolding match_keys_eq by (auto split: sum.splits)

lemma entry_matches_Some:
  assumes "iiifLabelToString (get entry ''label'') = Inr labelStr"
    and "match_keys entry labelStr keys = Inr (Some v)"
  shows "entry_matches keys entry" and "label_text (get entry ''value'') = v"
  using assms(2) unfolding match_keys_Some
  by (simp_all add: entry_matches_def label_text_def assms(1))

lemma entry_matches_None:
  assumes "iiifLabelToString (get entry ''label'') = Inr labelStr"
    and "match_keys entry labelStr keys = Inr None"
  shows "\<not> entry_matches keys entry"
  using assms(2) unfolding match_keys_None
  by (auto simp: entry_matches_def assms(1))

lemma metadata_loop_Inr:
  "metadata_loop entries keys = Inr v \<Longrightarrow> v = first_matching_value keys entries"
proof (induction entries)
  case Nil
  then show ?case by (simp add: first_matching_value_def)
next
  case (Cons e es)
  from Cons.prems have nn: "\<not> nullish e"
    by (auto split: if_splits)
  from Cons.prems nn obtain labelStr where
    l: "iiifLabelToString (get e ''label'') = Inr labelStr"
    by (auto simp: entry_field_get split: sum.splits)
  from Cons.prems nn l obtain r where m: "match_keys e labelStr keys = Inr r"
    by (auto simp: entry_field_get split: sum.splits)
  show ?case
  proof (cases r)
    case None
    then have "metadata_loop es keys = Inr v"
      using Cons.prems nn l m by (simp add: entry_field_get)
    then have "v = first_matching_value keys es" by (rule Cons.IH)
    moreover have "\<not> entry_matches keys e"
      using l m unfolding None by (rule entry_matches_None)
    ultimately show ?thesis by (simp add: first_matching_value_def)
  next
    case (Some x)
    then have "x = v"
      using Cons.prems nn l m by (simp add: entry_field_get)
    moreover have "entry_matches keys e" and "label_text (get e ''value'') = x"
      using l m unfolding Some by (rule entry_matches_Some)+
    ultimately show ?thesis by (simp add: first_matching_value_def)
  qed
qed

lemma match_keys_total:
  assumes "plain entry"
  shows "\<exists>r. match_keys entry labelStr keys = Inr r"
proof -
  obtain v where "iiifLabelToString (get entry ''value'') = Inr v"
    using iiifLabelToString_total [OF plain_get [OF assms]] by blast
  then show ?thesis unfolding match_keys_eq by simp
qed

lemma metadata_loop_total:
  "list_all plain entries \<Longrightarrow> list_all (\<lambda>e. \<not> nullish e) entries \<Longrightarrow>
   \<exists>v. metadata_loop entries keys = Inr v"
proof (induction entries)
  case Nil
  show ?case by simp
next
  case (Cons e es)
  then have p: "plain e" and nn: "\<not> nullish e" by simp_all
  obtain labelStr where l: "iiifLabelToString (entry_field e ''label'') = Inr labelStr"
    using plain_entry_field [OF p] by blast
  obtain r where m: "match_keys e labelStr keys = Inr r"
    using match_keys_total [OF p] by blast
  obtain v where v: "metadata_loop es keys = Inr v"
    using Cons by auto
  show ?case using nn l m v by (cases r) simp_all
qed

lemma well_formed_manifestD:
  assumes "well_formed_manifest manifest"
  shows "\<not> nullish manifest"
    and "plain manifest"
    and "\<exists>entries. iterate (metadata_of manifest) = Inr entries \<and>
           list_all (\<lambda>e. \<not> nullish e) entries \<and> list_all plain entries"
proof -
  show "\<not> nullish manifest" and p: "plain manifest"
    using assms by (simp_all add: well_formed_manifest_def)
  obtain entries where e: "iterate (metadata_of manifest) = Inr entries"
    and n: "list_all (\<lambda>e. \<not> nullish e) entries"
    using assms by (auto simp: well_formed_manifest_def split: sum.splits)
  have "list_all plain entries"
    using plain_metadata_of [OF p] e by (rule plain_iterate)
  then show "\<exists>entries. iterate (metadata_of manifest) = Inr entries \<and>
           list_all (\<lambda>e. \<not> nullish e) entries \<and> list_all plain entries"
    using e n by blast
qed

lemma lookup_returns_iterable:
  "getFirstMetadataValue manifest keys = Inr v \<Longrightarrow> \<exists>entries. iterate (metadata_of manifest) = Inr entries"
  by (auto simp: getFirstMetadataValue_def split: if_splits sum.splits)

lemma getFirstMetadataValue_total:
  assumes "well_formed_manifest manifest"
  shows "\<exists>v. getFirstMetadataValue manifest keys = Inr v"
proof -
  obtain entries where e: "iterate (metadata_of manifest) = Inr entries"
    and n: "list_all (\<lambda>e. \<not> nullish e) entries" and p: "list_all plain entries"
    using well_formed_manifestD(3) [OF assms] by blast
  obtain v where "metadata_loop entries keys = Inr v"
    using metadata_loop_total [OF p n] by blast
  then show ?thesis
    using e well_formed_manifestD(1) [OF assms] by (simp add: getFirstMetadataValue_def)
qed

lemma getFirstMetadataValue_Inr:
  assumes "getFirstMetadataValue manifest keys = Inr v"
  shows "v = first_matching_value keys (metadata_entries manifest)"
proof -
  obtain entries where e: "iterate (metadata_of manifest) = Inr entries"
    and l: "metadata_loop entries keys = Inr v"
    using assms by (auto simp: getFirstMetadataValue_def split: if_splits sum.splits)
  have "metadata_entries manifest = entries" by (simp add: metadata_entries_def e)
  then show ?thesis using metadata_loop_Inr [OF l] by simp
qed

lemma getFirstMetadataValue_well_formed:
  assumes "well_formed_manifest manifest"
  shows "getFirstMetadataValue manifest keys =
           Inr (first_matching_value keys (metadata_entries manifest))"
proof -
  obtain v where "getFirstMetadataValue manifest keys = Inr v"
    using getFirstMetadataValue_total [OF assms] by blast
  then show ?thesis using getFirstMetadataValue_Inr by simp
qed

text \<open>
  C3, as it holds of the code. Metadata Lookup walks the metadata entries in document
  order. For a well-formed manifest (not \<open>null\<close>, no object in it with a property named
  \<open>toString\<close>, the metadata absent or a sequence of entries that are not \<open>null\<close>) it
  returns, and whenever it returns, the result is the normalized value of the first
  entry whose normalized label equals one of the candidate names without regard to case
  and whose normalized value is not empty, and the empty string when there is no such
  entry. The order of the candidate names has no influence: any list with the same
  names up to case gives the same outcome, so when several differently labeled entries
  match, the entry that comes first in the metadata wins.
\<close>

theorem C3_document_order_decides:
  "(well_formed_manifest manifest \<longrightarrow>
      getFirstMetadataValue manifest keys =
        Inr (first_matching_value keys (metadata_entries manifest))) \<and>
   (\<forall>v. getFirstMetadataValue manifest keys = Inr v \<longrightarrow>
      v = first_matching_value keys (metadata_entries manifest)) \<and>
   (\<forall>keys'. set (map toLowerCase keys') = set (map toLowerCase keys) \<longrightarrow>
      getFirstMetadataValue manifest keys' = getFirstMetadataValue manifest keys)"
proof -
  have a: "well_formed_manifest manifest \<longrightarrow>
      getFirstMetadataValue manifest keys =
        Inr (first_matching_value keys (metadata_entries manifest))"
    using getFirstMetadataValue_well_formed by blast
  have b: "\<forall>v. getFirstMetadataValue manifest keys = Inr v \<longrightarrow>
      v = first_matching_value keys (metadata_entries manifest)"
    using getFirstMetadataValue_Inr by blast
  have c: "\<forall>keys'. set (map toLowerCase keys') = set (map toLowerCase keys) \<longrightarrow>
      getFirstMetadataValue manifest keys' = getFirstMetadataValue manifest keys"
    using getFirstMetadataValue_order by blast
  show ?thesis using a b c by (intro conjI)
qed

theorem C3_document_order_decides_witness:
  "getFirstMetadataValue ex_two_entries [''Author'', ''Creator''] = Inr ''Jane Doe'' \<and>
   getFirstMetadataValue ex_two_entries [''Creator'', ''Author''] = Inr ''Jane Doe''"
proof -
  have w: "well_formed_manifest ex_two_entries" by code_simp
  have h: "set (map toLowerCase [''Creator'', ''Author'']) =
           set (map toLowerCase [''Author'', ''Creator''])"
    by auto
  have v: "first_matching_value [''Author'', ''Creator''] (metadata_entries ex_two_entries)
           = ''Jane Doe''"
    by code_simp
  note t = C3_document_order_decides [of ex_two_entries "[''Author'', ''Creator'']"]
  have a: "getFirstMetadataValue ex_two_entries [''Author'', ''Creator''] = Inr ''Jane Doe''"
    using mp [OF conjunct1 [OF t] w] unfolding v .
  have "getFirstMetadataValue ex_two_entries [''Creator'', ''Author''] =
        getFirstMetadataValue ex_two_entries [''Author'', ''Creator'']"
    using mp [OF spec [OF conjunct2 [OF conjunct2 [OF t]]] h] .
  then have b: "getFirstMetadataValue ex_two_entries [''Creator'', ''Author''] = Inr ''Jane Doe''"
    unfolding a .
  show ?thesis using a b by (rule conjI)
qed

text \<open>The \<open>Author\<close> entry matches the first candidate and has a value, yet with the
  candidates \<open>Author, Creator\<close> in either order the \<open>Creator\<close> entry, first in the
  metadata, gives the result.\<close>

theorem C3_priority_counterexample:
  "getFirstMetadataValue ex_two_entries [''Author''] = Inr ''Bob Smith'' \<and>
   getFirstMetadataValue ex_two_entries [''Author'', ''Creator''] = Inr ''Jane Doe'' \<and>
   getFirstMetadataValue ex_two_entries [''Creator'', ''Author''] = Inr ''Jane Doe''"
  by code_simp

text \<open>An entry whose label cannot be converted to a string makes the lookup throw.\<close>

lemma getFirstMetadataValue_throws_example:
  "getFirstMetadataValue
     (JObj [(''metadata'', JArr [JObj [(''label'', JArr [JObj [(''toString'', JNum ''1'')]]),
                                       (''value'', JStr ''x'')]])])
     [''Author''] = Inl TypeError"
  by code_simp

section \<open>Properties of date extraction\<close>

lemma is_year_length: "is_year y \<Longrightarrow> length y = 4"
  by (auto simp: is_year_def split: list.splits)

lemma year_at_take: "year_at s \<Longrightarrow> is_year (take 4 s) \<and> s = take 4 s @ drop 4 s"
  by (auto simp: year_at_def is_year_def split: list.splits)

lemma year_at_append: "is_year y \<Longrightarrow> year_at (y @ post)"
  by (auto simp: year_at_def is_year_def split: list.splits)

lemma year_occurs_at_0: "year_occurs_at s 0 y \<longleftrightarrow> (\<exists>post. s = y @ post \<and> is_year y)"
  by (auto simp: year_occurs_at_def)

lemma year_occurs_at_Nil: "\<not> year_occurs_at [] k y"
  by (auto simp: year_occurs_at_def dest: is_year_length)

lemma year_occurs_at_Suc: "year_occurs_at (c # cs) (Suc k) y \<longleftrightarrow> year_occurs_at cs k y"
proof
  assume "year_occurs_at (c # cs) (Suc k) y"
  then obtain pre post where eq: "c # cs = pre @ y @ post" and len: "length pre = Suc k"
    and y: "is_year y" by (auto simp: year_occurs_at_def)
  from len obtain a pre' where pre: "pre = a # pre'" and "length pre' = k"
    by (cases pre) auto
  with eq y show "year_occurs_at cs k y" by (auto simp: year_occurs_at_def)
next
  assume "year_occurs_at cs k y"
  then obtain pre post where "cs = pre @ y @ post" "length pre = k" "is_year y"
    by (auto simp: year_occurs_at_def)
  then have "c # cs = (c # pre) @ y @ post \<and> length (c # pre) = Suc k \<and> is_year y" by simp
  then show "year_occurs_at (c # cs) (Suc k) y" unfolding year_occurs_at_def by blast
qed

lemma year_at_iff: "year_at s \<longleftrightarrow> (\<exists>y. year_occurs_at s 0 y)"
proof
  assume "year_at s"
  then have "s = take 4 s @ drop 4 s \<and> is_year (take 4 s)" using year_at_take by blast
  then show "\<exists>y. year_occurs_at s 0 y" unfolding year_occurs_at_0 by blast
next
  assume "\<exists>y. year_occurs_at s 0 y"
  then show "year_at s" by (auto simp: year_occurs_at_0 year_at_append)
qed

lemma year_occurs_at_unique:
  assumes "year_occurs_at s k y" and "year_occurs_at s k y'"
  shows "y = y'"
proof -
  obtain pre post where a: "s = pre @ y @ post" "length pre = k" "is_year y"
    using assms(1) by (auto simp: year_occurs_at_def)
  obtain pre' post' where b: "s = pre' @ y' @ post'" "length pre' = k" "is_year y'"
    using assms(2) by (auto simp: year_occurs_at_def)
  have "pre = pre' \<and> y @ post = y' @ post'" using a b by (metis append_eq_append_conv)
  moreover have "length y = length y'" using a b by (simp add: is_year_length)
  ultimately show ?thesis by simp
qed

lemma year_match_None: "year_match s = None \<longleftrightarrow> (\<forall>k y. \<not> year_occurs_at s k y)"
proof (induction s)
  case Nil
  then show ?case by (simp add: year_occurs_at_Nil)
next
  case (Cons c cs)
  show ?case
  proof (cases "year_at (c # cs)")
    case True
    then show ?thesis using year_at_iff by auto
  next
    case False
    have "(\<forall>k y. \<not> year_occurs_at (c # cs) k y) \<longleftrightarrow> (\<forall>k y. \<not> year_occurs_at cs k y)"
    proof
      assume h: "\<forall>k y. \<not> year_occurs_at (c # cs) k y"
      show "\<forall>k y. \<not> year_occurs_at cs k y"
        using h year_occurs_at_Suc by blast
    next
      assume h: "\<forall>k y. \<not> year_occurs_at cs k y"
      show "\<forall>k y. \<not> year_occurs_at (c # cs) k y"
      proof (intro allI)
        fix k y
        show "\<not> year_occurs_at (c # cs) k y"
        proof (cases k)
          case 0
          then show ?thesis using False year_at_iff by blast
        next
          case (Suc k')
          then show ?thesis using h year_occurs_at_Suc by blast
        qed
      qed
    qed
    then show ?thesis using False Cons.IH by simp
  qed
qed

lemma year_match_Some:
  "year_match s = Some y \<Longrightarrow>
   \<exists>k. year_occurs_at s k y \<and> (\<forall>k' y'. year_occurs_at s k' y' \<longrightarrow> k \<le> k')"
proof (induction s)
  case Nil
  then show ?case by simp
next
  case (Cons c cs)
  show ?case
  proof (cases "year_at (c # cs)")
    case True
    then have y: "y = take 4 (c # cs)" using Cons.prems by simp
    have "c # cs = take 4 (c # cs) @ drop 4 (c # cs) \<and> is_year (take 4 (c # cs))"
      using year_at_take [OF True] by blast
    then have "year_occurs_at (c # cs) 0 y" unfolding year_occurs_at_0 y by blast
    then show ?thesis by blast
  next
    case False
    then have "year_match cs = Some y" using Cons.prems by simp
    then obtain k where k: "year_occurs_at cs k y"
      and least: "\<forall>k' y'. year_occurs_at cs k' y' \<longrightarrow> k \<le> k'"
      using Cons.IH by blast
    have a: "year_occurs_at (c # cs) (Suc k) y" using k year_occurs_at_Suc by blast
    have b: "\<forall>k' y'. year_occurs_at (c # cs) k' y' \<longrightarrow> Suc k \<le> k'"
    proof (intro allI impI)
      fix k' y'
      assume h: "year_occurs_at (c # cs) k' y'"
      show "Suc k \<le> k'"
      proof (cases k')
        case 0
        then show ?thesis using h False year_at_iff by blast
      next
        case (Suc j)
        then have "year_occurs_at cs j y'" using h year_occurs_at_Suc by blast
        then have "k \<le> j" using least by blast
        then show ?thesis using Suc by simp
      qed
    qed
    show ?thesis using a b by blast
  qed
qed

lemma date_of_string_leftmost:
  assumes "year_occurs_at dateStr k y"
    and "\<forall>k' y'. year_occurs_at dateStr k' y' \<longrightarrow> k \<le> k'"
  shows "date_of_string dateStr = y"
proof -
  have ne: "dateStr \<noteq> []" using assms(1) year_occurs_at_Nil by blast
  have "year_match dateStr \<noteq> None" using assms(1) year_match_None by blast
  then obtain y0 where y0: "year_match dateStr = Some y0" by blast
  then obtain k0 where k0: "year_occurs_at dateStr k0 y0"
    and least0: "\<forall>k' y'. year_occurs_at dateStr k' y' \<longrightarrow> k0 \<le> k'"
    using year_match_Some by blast
  have "k0 \<le> k" using least0 assms(1) by blast
  moreover have "k \<le> k0" using assms(2) k0 by blast
  ultimately have "k0 = k" by simp
  then have "y0 = y" using k0 assms(1) year_occurs_at_unique by blast
  then show ?thesis using y0 ne by (simp add: date_of_string_def)
qed

lemma date_of_string_no_year:
  assumes "\<forall>k y. \<not> year_occurs_at dateStr k y"
  shows "date_of_string dateStr = js_trim dateStr"
proof -
  have "year_match dateStr = None" using assms year_match_None by blast
  then show ?thesis by (simp add: date_of_string_def js_trim_def)
qed

text \<open>
  C4, as it holds of the code. Let \<open>dateStr\<close> be the date string located in the metadata. When a
  year (four digits, 1000 to 1999 or 2000 to 2099) occurs in it, \<open>extractDate\<close> returns
  the leftmost such occurrence, also when more digits or letters follow it; when none
  occurs, \<open>extractDate\<close> returns the trimmed string.
\<close>

theorem C4_extractDate_year:
  assumes "locate_date manifest = Inr dateStr"
  shows "(\<forall>k y. year_occurs_at dateStr k y \<and> (\<forall>k' y'. year_occurs_at dateStr k' y' \<longrightarrow> k \<le> k')
            \<longrightarrow> extractDate manifest = Inr y) \<and>
         ((\<forall>k y. \<not> year_occurs_at dateStr k y) \<longrightarrow> extractDate manifest = Inr (js_trim dateStr))"
proof -
  have e: "extractDate manifest = Inr (date_of_string dateStr)"
    using assms by (simp add: extractDate_def)
  show ?thesis
    unfolding e using date_of_string_leftmost date_of_string_no_year by blast
qed

theorem C4_extractDate_year_witness:
  "extractDate ex_date_1623 = Inr ''1623'' \<and>
   extractDate ex_date_century = Inr ''16th century''"
proof -
  have h1: "locate_date ex_date_1623 = Inr ''Printed in London, 1623''" by code_simp
  have m1: "year_match ''Printed in London, 1623'' = Some ''1623''" by code_simp
  obtain k where k: "year_occurs_at ''Printed in London, 1623'' k ''1623''"
    "\<forall>k' y'. year_occurs_at ''Printed in London, 1623'' k' y' \<longrightarrow> k \<le> k'"
    using year_match_Some [OF m1] by blast
  have a: "extractDate ex_date_1623 = Inr ''1623''"
    using C4_extractDate_year [OF h1] k by blast
  have h2: "locate_date ex_date_century = Inr ''16th century''" by code_simp
  have m2: "year_match ''16th century'' = None" by code_simp
  have t2: "js_trim ''16th century'' = ''16th century''" by code_simp
  have "\<forall>k y. \<not> year_occurs_at ''16th century'' k y"
    by (rule iffD1 [OF year_match_None m2])
  then have b: "extractDate ex_date_century = Inr ''16th century''"
    using C4_extractDate_year [OF h2] t2 by simp
  show ?thesis using a b by simp
qed

text \<open>The value \<open>circa 1600s\<close> contains the year \<open>1600\<close>, which is what comes back,
  not the value itself.\<close>

theorem C4_circa_1600s_counterexample:
  "extractDate ex_date_1600s = Inr ''1600'' \<and>
   extractDate ex_date_1600s \<noteq> Inr (js_trim ''circa 1600s'')"
  by code_simp

section \<open>Properties of the Citation-to-Catalog Mapper\<close>

lemma trim_or_empty_Inr:
  "trim_or_empty x = Inr s \<Longrightarrow> s = (case x of JStr s' \<Rightarrow> js_trim s' | _ \<Rightarrow> [])"
  by (cases x) (auto simp: trim_or_empty_def js_or_def js_trim_def split: if_splits)

lemma trim_or_empty_total:
  "string_or_falsy x \<Longrightarrow> trim_or_empty x = Inr (case x of JStr s' \<Rightarrow> js_trim s' | _ \<Rightarrow> [])"
  by (cases x) (auto simp: trim_or_empty_def string_or_falsy_def js_or_def js_trim_def)

lemma creator_of_author_Inr:
  assumes "creator_of_author a = Inr cs"
  shows "cs = creators_for a"
proof -
  from assms obtain given family literal where
    g: "trim_or_empty (get a ''given'') = Inr given" and
    f: "trim_or_empty (get a ''family'') = Inr family" and
    l: "trim_or_empty (get a ''literal'') = Inr literal" and
    cs: "cs = (if family \<noteq> [] \<or> given \<noteq> []
               then [creator_record given (str_or family given)]
               else if literal \<noteq> [] then [creator_record [] literal] else [])"
    by (auto simp: creator_of_author_def creator_record_def split: if_splits sum.splits)
  have "given = trimmed_part a ''given''" "family = trimmed_part a ''family''"
    "literal = trimmed_part a ''literal''"
    using trim_or_empty_Inr [OF g] trim_or_empty_Inr [OF f] trim_or_empty_Inr [OF l]
    by (simp_all add: trimmed_part_def)
  then show ?thesis unfolding cs creators_for_def Let_def str_or_def by auto
qed

lemma creator_of_author_total:
  assumes "well_typed_author a"
  shows "creator_of_author a = Inr (creators_for a)"
proof -
  have g: "trim_or_empty (get a ''given'') = Inr (trimmed_part a ''given'')"
    and f: "trim_or_empty (get a ''family'') = Inr (trimmed_part a ''family'')"
    and l: "trim_or_empty (get a ''literal'') = Inr (trimmed_part a ''literal'')"
    using assms by (simp_all add: well_typed_author_def trim_or_empty_total trimmed_part_def)
  have n: "\<not> nullish a" using assms by (simp add: well_typed_author_def)
  show ?thesis
    unfolding creator_of_author_def creators_for_def Let_def str_or_def creator_record_def
    using n by (auto simp: g f l)
qed

lemma creators_loop_Inr:
  "creators_loop authors acc = Inr cs \<Longrightarrow> cs = acc @ concat (map creators_for authors)"
proof (induction authors arbitrary: acc)
  case Nil
  then show ?case by simp
next
  case (Cons a rest)
  from Cons.prems obtain c where c: "creator_of_author a = Inr c"
    and r: "creators_loop rest (acc @ c) = Inr cs"
    by (auto split: sum.splits)
  have "c = creators_for a" using c by (rule creator_of_author_Inr)
  then show ?case using Cons.IH [OF r] by simp
qed

lemma creators_loop_total:
  "\<forall>a\<in>set authors. well_typed_author a \<Longrightarrow>
   creators_loop authors acc = Inr (acc @ concat (map creators_for authors))"
  by (induction authors arbitrary: acc) (simp_all add: creator_of_author_total)

lemma creators_for_lastName:
  "c \<in> set (creators_for a) \<Longrightarrow> \<exists>f l. c = creator_record f l \<and> l \<noteq> []"
  by (auto simp: creators_for_def Let_def split: if_splits)

lemma mapCslAuthorsToCreators_Inr:
  "mapCslAuthorsToCreators cslItem = Inr creators \<Longrightarrow>
   creators = concat (map creators_for (authors_of cslItem))"
  by (auto simp: mapCslAuthorsToCreators_def authors_of_def Let_def
           dest: creators_loop_Inr split: if_splits)

text \<open>
  C7. For a citation record whose authors have string (or absent) \<open>given\<close>,
  \<open>family\<close> and \<open>literal\<close>, creator mapping returns, author by author and in the
  authors' order, what \<open>creators_for\<close> says: with a non-empty trimmed \<open>given\<close> or
  \<open>family\<close>, the creator with \<open>firstName\<close> the given name and \<open>lastName\<close> the
  family name, or the given name when the family name is empty; else with a non-empty
  trimmed \<open>literal\<close>, the creator with empty \<open>firstName\<close> and \<open>lastName\<close> the
  literal; else nothing. Whenever the mapping returns, this is what it returns, and no
  creator in the result has an empty \<open>lastName\<close>.
\<close>

theorem C7_creator_mapping:
  "(\<not> nullish cslItem \<and> (\<forall>a\<in>set (authors_of cslItem). well_typed_author a) \<longrightarrow>
      mapCslAuthorsToCreators cslItem = Inr (concat (map creators_for (authors_of cslItem)))) \<and>
   (\<forall>creators. mapCslAuthorsToCreators cslItem = Inr creators \<longrightarrow>
      creators = concat (map creators_for (authors_of cslItem)) \<and>
      (\<forall>c\<in>set creators. \<exists>f l. c = creator_record f l \<and> l \<noteq> []))"
proof -
  have a: "\<not> nullish cslItem \<and> (\<forall>a\<in>set (authors_of cslItem). well_typed_author a) \<longrightarrow>
      mapCslAuthorsToCreators cslItem = Inr (concat (map creators_for (authors_of cslItem)))"
    using creators_loop_total [of "authors_of cslItem" "[]"]
    by (simp add: mapCslAuthorsToCreators_def authors_of_def Let_def)
  have b: "\<And>creators. mapCslAuthorsToCreators cslItem = Inr creators \<Longrightarrow>
      creators = concat (map creators_for (authors_of cslItem))"
    by (rule mapCslAuthorsToCreators_Inr)
  have c: "\<forall>c\<in>set (concat (map creators_for (authors_of cslItem))).
             \<exists>f l. c = creator_record f l \<and> l \<noteq> []"
    using creators_for_lastName by auto
  show ?thesis using a b c by blast
qed

theorem C7_creator_mapping_witness:
  "mapCslAuthorsToCreators ex_csl_authors =
     Inr [creator_record ''Jane Mary'' ''Doe'', creator_record ''Plato'' ''Plato'',
          creator_record [] ''The Academy'']"
proof -
  have h1: "\<not> nullish ex_csl_authors" by code_simp
  have h2: "\<forall>a\<in>set (authors_of ex_csl_authors). well_typed_author a" by code_simp
  have v: "concat (map creators_for (authors_of ex_csl_authors)) =
     [creator_record ''Jane Mary'' ''Doe'', creator_record ''Plato'' ''Plato'',
      creator_record [] ''The Academy'']" by code_simp
  have "mapCslAuthorsToCreators ex_csl_authors =
          Inr (concat (map creators_for (authors_of ex_csl_authors)))"
    by (rule mp [OF conjunct1 [OF C7_creator_mapping]]) (rule conjI [OF h1 h2])
  then show ?thesis unfolding v .
qed

lemma lower_char_not_upper: "\<not> is_upper (lower_char c)"
proof -
  have "(of_char c :: nat) < 256" by (rule nat_of_char_less_256)
  then show ?thesis
    by (auto simp: lower_char_def is_upper_def Let_def)
qed

lemma toLowerCase_no_upper: "c \<in> set (toLowerCase s) \<Longrightarrow> \<not> is_upper c"
  by (auto simp: toLowerCase_def lower_char_not_upper)

lemma no_upper_prototype:
  assumes "\<forall>c\<in>set t. \<not> is_upper c" and "t \<noteq> ''constructor''" and "t \<noteq> ''__proto__''"
  shows "object_prototype t = JUndefined"
proof -
  have "t \<notin> set [''__defineGetter__'', ''__defineSetter__'',
                        ''hasOwnProperty'', ''__lookupGetter__'', ''__lookupSetter__'',
                        ''isPrototypeOf'', ''propertyIsEnumerable'', ''toString'',
                        ''valueOf'', ''toLocaleString'']"
    using assms(1) by (auto simp: is_upper_def)
  then show ?thesis using assms(2,3) by (simp add: object_prototype_def)
qed

lemma get_MAP:
  "get MAP t =
     (if t = ''book'' then JStr ''book''
      else if t = ''article-journal'' then JStr ''journalArticle''
      else if t = ''manuscript'' then JStr ''manuscript''
      else object_prototype t)"
  by (simp add: MAP_def)

text \<open>For every type whose lower-case form is neither \<open>constructor\<close> nor \<open>__proto__\<close>
  the lookup is the table's, with \<open>book\<close> for what the table does not have.\<close>

lemma mapCslTypeToZoteroItemType_table:
  assumes "toLowerCase s \<noteq> ''constructor''" and "toLowerCase s \<noteq> ''__proto__''"
  shows "mapCslTypeToZoteroItemType (JStr s) =
           Inr (JStr (if toLowerCase s = ''article-journal'' then ''journalArticle''
                      else if toLowerCase s = ''manuscript'' then ''manuscript''
                      else ''book''))"
proof -
  have p: "object_prototype (toLowerCase s) = JUndefined"
    using toLowerCase_no_upper assms by (intro no_upper_prototype) auto
  have j: "js_or (JStr s) (JStr []) = JStr s" by (simp add: js_or_def)
  show ?thesis
    by (simp add: mapCslTypeToZoteroItemType_def j get_MAP p Let_def)
qed

lemma mapCslTypeToZoteroItemType_missing:
  "\<not> truthy v \<Longrightarrow> mapCslTypeToZoteroItemType v = Inr (JStr ''book'')"
  by (simp add: mapCslTypeToZoteroItemType_def js_or_def toLowerCase_def get_MAP
        object_prototype_def)

lemma mapCslTypeToZoteroItemType_examples:
  "mapCslTypeToZoteroItemType (JStr ''article-journal'') = Inr (JStr ''journalArticle'') \<and>
   mapCslTypeToZoteroItemType (JStr ''dataset'') = Inr (JStr ''book'') \<and>
   mapCslTypeToZoteroItemType (JStr ''Manuscript'') = Inr (JStr ''manuscript'') \<and>
   mapCslTypeToZoteroItemType JUndefined = Inr (JStr ''book'')"
  by code_simp

text \<open>
  C6. The type \<open>constructor\<close> is not in the table, and the item type it maps to is not
  \<open>book\<close>: the read \<open>MAP[t]\<close> finds the inherited member \<open>constructor\<close> of the
  object literal, a function, which is truthy and is returned. The same holds of the
  catalog item built from a record of that type.
\<close>

theorem C6_constructor_type_is_not_book:
  "mapCslTypeToZoteroItemType (JStr ''constructor'') = Inr (JFun ''Object'') \<and>
   mapCslTypeToZoteroItemType (JStr ''constructor'') \<noteq> Inr (JStr ''book'') \<and>
   (\<exists>z. cslToZoteroItem ex_csl_constructor = Inr z \<and> get z ''itemType'' = JFun ''Object'')"
proof -
  have a: "mapCslTypeToZoteroItemType (JStr ''constructor'') = Inr (JFun ''Object'')"
    by code_simp
  have b: "cslToZoteroItem ex_csl_constructor =
            Inr (JObj [(''itemType'', JFun ''Object''), (''title'', JStr ''Letters''),
                       (''creators'', JArr [])])"
    by code_simp
  have c: "get (JObj [(''itemType'', JFun ''Object''), (''title'', JStr ''Letters''),
                       (''creators'', JArr [])]) ''itemType'' = JFun ''Object''"
    by simp
  show ?thesis unfolding a b using c by simp
qed








section \<open>Properties of manifest-directory trimming\<close>














lemma trimmed_path_examples:
  "map trimmed_path [''/'', ''/a'', ''/a/'', ''/iiif/b1/manifest.json'', ''/a//''] =
     [''/'', ''/'', ''/'', ''/iiif/b1'', ''/a'']"
  by code_simp




section \<open>Properties of the Manifest-to-Citation Mapper\<close>

lemma str_or_nonempty: "b \<noteq> [] \<Longrightarrow> str_or a b \<noteq> []"
  by (simp add: str_or_def)

lemma created_published_loop_total:
  "list_all plain entries \<Longrightarrow> list_all (\<lambda>e. \<not> nullish e) entries \<Longrightarrow>
   \<exists>v. created_published_loop entries dateStr = Inr v"
proof (induction entries arbitrary: dateStr)
  case Nil
  show ?case by simp
next
  case (Cons e es)
  then have p: "plain e" and nn: "\<not> nullish e" by simp_all
  obtain l where l: "iiifLabelToString (entry_field e ''label'') = Inr l"
    using plain_entry_field [OF p] by blast
  obtain v where v: "iiifLabelToString (entry_field e ''value'') = Inr v"
    using plain_entry_field [OF p] by blast
  have r: "\<And>d. \<exists>w. created_published_loop es d = Inr w"
    using Cons by simp
  show ?case using nn l v r by simp
qed

lemma note_loop_total:
  "list_all plain entries \<Longrightarrow> list_all (\<lambda>e. \<not> nullish e) entries \<Longrightarrow>
   \<exists>v. note_loop entries lines = Inr v"
proof (induction entries arbitrary: lines)
  case Nil
  show ?case by simp
next
  case (Cons e es)
  then have p: "plain e" and nn: "\<not> nullish e" by simp_all
  obtain l where l: "iiifLabelToString (entry_field e ''label'') = Inr l"
    using plain_entry_field [OF p] by blast
  obtain v where v: "iiifLabelToString (entry_field e ''value'') = Inr v"
    using plain_entry_field [OF p] by blast
  have r: "\<And>ls. \<exists>w. note_loop es ls = Inr w"
    using Cons by simp
  show ?case using nn l v r by simp
qed

lemma extractAuthors_total:
  assumes "well_formed_manifest manifest"
  shows "\<exists>v. extractAuthors manifest = Inr v"
proof -
  obtain raw where "getFirstMetadataValue manifest
             [''Author'', ''Authors'', ''Creator'', ''Creators'', ''author'', ''creator''] = Inr raw"
    using getFirstMetadataValue_total [OF assms] by blast
  then show ?thesis by (simp add: extractAuthors_def Let_def)
qed

lemma locate_date_total:
  assumes "well_formed_manifest manifest"
  shows "\<exists>v. locate_date manifest = Inr v"
proof -
  obtain d where d: "getFirstMetadataValue manifest
             [''Date'', ''Publication Date'', ''date'', ''Issued''] = Inr d"
    using getFirstMetadataValue_total [OF assms] by blast
  obtain entries where e: "iterate (metadata_of manifest) = Inr entries"
    and n: "list_all (\<lambda>e. \<not> nullish e) entries" and p: "list_all plain entries"
    using well_formed_manifestD(3) [OF assms] by blast
  obtain v where v: "created_published_loop entries d = Inr v"
    using created_published_loop_total [OF p n] by blast
  show ?thesis
  proof (cases "d = []")
    case True
    then show ?thesis using d e v by (simp add: locate_date_def)
  next
    case False
    then show ?thesis using d by (simp add: locate_date_def)
  qed
qed

lemma extractDate_total:
  assumes "well_formed_manifest manifest"
  shows "\<exists>v. extractDate manifest = Inr v"
proof -
  obtain d where "locate_date manifest = Inr d" using locate_date_total [OF assms] by blast
  then show ?thesis by (simp add: extractDate_def)
qed

lemma extractPublisher_total:
  assumes "well_formed_manifest manifest"
  shows "\<exists>v. extractPublisher manifest = Inr v"
proof -
  obtain p where "getFirstMetadataValue manifest
             [''Publisher'', ''publisher'', ''Institution'', ''Holding Institution'', ''Repository'']
             = Inr p"
    using getFirstMetadataValue_total [OF assms] by blast
  then show ?thesis by (simp add: extractPublisher_def)
qed

lemma field_text_total:
  assumes "plain manifest"
  shows "\<exists>s. iiifLabelToString (js_or (get manifest k) (get manifest k)) = Inr s"
  unfolding js_or_same using plain_get [OF assms] by (rule iiifLabelToString_total)

lemma inferTypeFromMetadata_total:
  assumes "well_formed_manifest manifest"
  shows "\<exists>v. inferTypeFromMetadata manifest = Inr v"
proof -
  have p: "plain manifest" by (rule well_formed_manifestD(2) [OF assms])
  obtain l where l: "iiifLabelToString (js_or (get manifest ''label'') (get manifest ''label'')) = Inr l"
    using field_text_total [OF p] by blast
  obtain d where d: "iiifLabelToString
      (js_or (get manifest ''description'') (get manifest ''description'')) = Inr d"
    using field_text_total [OF p] by blast
  obtain ty where ty: "getFirstMetadataValue manifest [''Type'', ''type''] = Inr ty"
    using getFirstMetadataValue_total [OF assms] by blast
  show ?thesis
    using well_formed_manifestD(1) [OF assms]
    by (simp add: inferTypeFromMetadata_def Let_def l d ty)
qed

lemma note_field_line_total:
  "plain v \<Longrightarrow> \<exists>l. note_field_line name v = Inr l"
  by (simp add: note_field_line_def plain_js_String)

lemma case_Inr_total:
  "\<exists>v. X = Inr v \<Longrightarrow> \<exists>v. (case X of Inl e \<Rightarrow> Inl e | Inr l \<Rightarrow> Inr (g l)) = Inr v"
  by auto

lemma buildIiifNote_total:
  assumes "well_formed_manifest manifest"
  shows "\<exists>v. buildIiifNote manifest manifestUrl = Inr v"
proof -
  have pm: "plain manifest" by (rule well_formed_manifestD(2) [OF assms])
  obtain entries where e: "iterate (metadata_of manifest) = Inr entries"
    and n: "list_all (\<lambda>e. \<not> nullish e) entries" and p: "list_all plain entries"
    using well_formed_manifestD(3) [OF assms] by blast
  obtain idLine where i: "note_field_line ''@id'' (get manifest ''@id'') = Inr idLine"
    using note_field_line_total [OF plain_get [OF pm]] by blast
  obtain contextLine where
    c: "note_field_line ''@context'' (get manifest ''@context'') = Inr contextLine"
    using note_field_line_total [OF plain_get [OF pm]] by blast
  have nl: "\<And>lines. \<exists>v. note_loop entries lines = Inr v"
    using note_loop_total [OF p n] by blast
  show ?thesis
    unfolding buildIiifNote_def Let_def i c e sum.case
    apply (cases "length entries > 0")
     apply (simp only: if_True)
     apply (rule case_Inr_total)
     apply (rule nl)
    apply (simp only: if_False)
    apply (rule exI)
    apply (rule refl)
    done
qed

text \<open>The identifier that \<open>extractIdFromManifest\<close> returns, when the label normalizes
  to \<open>label\<close>.\<close>

lemma extractIdFromManifest_Inr:
  assumes "extractIdFromManifest manifest manifestUrl = Inr eid"
    and "iiifLabelToString (get manifest ''label'') = Inr label"
  shows "eid = (if truthy (get manifest ''@id'') then string_of (get manifest ''@id'')
                else if truthy (get manifest ''id'') then string_of (get manifest ''id'')
                else if manifestUrl \<noteq> [] then manifestUrl
                else label)"
  using assms
  by (auto simp: extractIdFromManifest_def js_String_def js_or_same split: if_splits)

lemma extractIdFromManifest_total:
  assumes "plain manifest"
  shows "\<exists>eid. extractIdFromManifest manifest manifestUrl = Inr eid"
proof -
  obtain l where l: "iiifLabelToString (js_or (get manifest ''label'') (get manifest ''label'')) = Inr l"
    using field_text_total [OF assms] by blast
  show ?thesis
    by (simp add: extractIdFromManifest_def l plain_js_String [OF plain_get [OF assms]])
qed

lemma title_of_total:
  assumes "plain manifest"
  shows "\<exists>title. title_of manifest manifestUrl = Inr title"
proof -
  obtain l where l: "iiifLabelToString (js_or (get manifest ''label'') (get manifest ''label'')) = Inr l"
    using field_text_total [OF assms] by blast
  obtain eid where e: "extractIdFromManifest manifest manifestUrl = Inr eid"
    using extractIdFromManifest_total [OF assms] by blast
  show ?thesis by (simp add: title_of_def l e)
qed

lemma manifestToCSLItem_total:
  assumes "well_formed_manifest manifest"
  shows "\<exists>r. manifestToCSLItem U manifest manifestUrl = Inr r"
proof -
  have pm: "plain manifest" by (rule well_formed_manifestD(2) [OF assms])
  obtain ti where ti: "title_of manifest manifestUrl = Inr ti"
    using title_of_total [OF pm] by blast
  obtain eid where e: "extractIdFromManifest manifest manifestUrl = Inr eid"
    using extractIdFromManifest_total [OF pm] by blast
  obtain a where a: "extractAuthors manifest = Inr a" using extractAuthors_total [OF assms] by blast
  obtain d where d: "extractDate manifest = Inr d" using extractDate_total [OF assms] by blast
  obtain p where p: "extractPublisher manifest = Inr p" using extractPublisher_total [OF assms] by blast
  obtain t where t: "inferTypeFromMetadata manifest = Inr t"
    using inferTypeFromMetadata_total [OF assms] by blast
  obtain n where n: "buildIiifNote manifest manifestUrl = Inr n"
    using buildIiifNote_total [OF assms] by blast
  show ?thesis
    using well_formed_manifestD(1) [OF assms]
    by (simp add: manifestToCSLItem_def Let_def ti e a d p t n)
qed

lemma title_of_Inr:
  assumes "title_of manifest manifestUrl = Inr title"
    and "extractIdFromManifest manifest manifestUrl = Inr eid"
  shows "\<exists>label. iiifLabelToString (get manifest ''label'') = Inr label \<and>
           title = str_or label (str_or eid ''[untitled IIIF manifest]'')"
  using assms
  by (auto simp: title_of_def js_or_same str_or_def split: sum.splits if_splits)

lemma manifestToCSLItem_Inr:
  assumes "manifestToCSLItem U manifest manifestUrl = Inr r"
  shows "\<exists>title eid ty url rest.
     title_of manifest manifestUrl = Inr title \<and>
     extractIdFromManifest manifest manifestUrl = Inr eid \<and>
     r = JObj ((''id'', JStr (str_or eid title)) # (''type'', JStr ty)
               # (''title'', JStr title) # (''URL'', url) # rest)"
  using assms
  by (auto simp: manifestToCSLItem_def Let_def split: if_splits sum.splits)

text \<open>
  C2. For a well-formed manifest (not \<open>null\<close>, no object in it with a property named
  \<open>toString\<close>, the metadata absent or a sequence of entries that are not \<open>null\<close>) and
  any source URL \<open>manifestToCSLItem\<close> returns a record. Whenever it returns a record,
  the label has been normalized and the identifier extracted without a throw; the
  extracted identifier is the manifest's \<open>@id\<close> as a string, else its \<open>id\<close> as a
  string, else the source URL, else the normalized label; the record's \<open>title\<close> is a
  non-empty string: the normalized label, else the extracted identifier, else the
  placeholder \<open>[untitled IIIF manifest]\<close>; and its \<open>id\<close> is a non-empty string: the
  extracted identifier, else the title.
\<close>

theorem C2_title_and_id_nonempty:
  "(well_formed_manifest manifest \<longrightarrow> (\<exists>r. manifestToCSLItem U manifest manifestUrl = Inr r)) \<and>
   (\<forall>r. manifestToCSLItem U manifest manifestUrl = Inr r \<longrightarrow>
      (\<exists>label eid title ident.
         iiifLabelToString (get manifest ''label'') = Inr label \<and>
         extractIdFromManifest manifest manifestUrl = Inr eid \<and>
         eid = (if truthy (get manifest ''@id'') then string_of (get manifest ''@id'')
                else if truthy (get manifest ''id'') then string_of (get manifest ''id'')
                else if manifestUrl \<noteq> [] then manifestUrl
                else label) \<and>
         get r ''title'' = JStr title \<and> title \<noteq> [] \<and>
         get r ''id'' = JStr ident \<and> ident \<noteq> [] \<and>
         title = (if label \<noteq> [] then label
                  else if eid \<noteq> [] then eid
                  else ''[untitled IIIF manifest]'') \<and>
         ident = (if eid \<noteq> [] then eid else title)))"
proof -
  have a: "well_formed_manifest manifest \<longrightarrow> (\<exists>r. manifestToCSLItem U manifest manifestUrl = Inr r)"
    using manifestToCSLItem_total by blast
  have b: "\<forall>r. manifestToCSLItem U manifest manifestUrl = Inr r \<longrightarrow>
      (\<exists>label eid title ident.
         iiifLabelToString (get manifest ''label'') = Inr label \<and>
         extractIdFromManifest manifest manifestUrl = Inr eid \<and>
         eid = (if truthy (get manifest ''@id'') then string_of (get manifest ''@id'')
                else if truthy (get manifest ''id'') then string_of (get manifest ''id'')
                else if manifestUrl \<noteq> [] then manifestUrl
                else label) \<and>
         get r ''title'' = JStr title \<and> title \<noteq> [] \<and>
         get r ''id'' = JStr ident \<and> ident \<noteq> [] \<and>
         title = (if label \<noteq> [] then label
                  else if eid \<noteq> [] then eid
                  else ''[untitled IIIF manifest]'') \<and>
         ident = (if eid \<noteq> [] then eid else title))"
  proof (intro allI impI)
    fix r assume r: "manifestToCSLItem U manifest manifestUrl = Inr r"
    obtain title eid ty url rest where
      ti: "title_of manifest manifestUrl = Inr title" and
      e: "extractIdFromManifest manifest manifestUrl = Inr eid" and
      req: "r = JObj ((''id'', JStr (str_or eid title)) # (''type'', JStr ty)
               # (''title'', JStr title) # (''URL'', url) # rest)"
      using manifestToCSLItem_Inr [OF r] by blast
    obtain label where l: "iiifLabelToString (get manifest ''label'') = Inr label"
      and teq: "title = str_or label (str_or eid ''[untitled IIIF manifest]'')"
      using title_of_Inr [OF ti e] by blast
    have c1: "eid = (if truthy (get manifest ''@id'') then string_of (get manifest ''@id'')
                else if truthy (get manifest ''id'') then string_of (get manifest ''id'')
                else if manifestUrl \<noteq> [] then manifestUrl
                else label)"
      using e l by (rule extractIdFromManifest_Inr)
    have c2: "get r ''title'' = JStr title" unfolding req by simp
    have c3: "title \<noteq> []" unfolding teq by (simp add: str_or_nonempty)
    have c4: "get r ''id'' = JStr (str_or eid title)" unfolding req by simp
    have c5: "str_or eid title \<noteq> []" using c3 by (rule str_or_nonempty)
    have c6: "title = (if label \<noteq> [] then label
                  else if eid \<noteq> [] then eid
                  else ''[untitled IIIF manifest]'')"
      unfolding teq by (simp add: str_or_def)
    have c7: "str_or eid title = (if eid \<noteq> [] then eid else title)"
      by (simp add: str_or_def)
    show "\<exists>label eid title ident.
         iiifLabelToString (get manifest ''label'') = Inr label \<and>
         extractIdFromManifest manifest manifestUrl = Inr eid \<and>
         eid = (if truthy (get manifest ''@id'') then string_of (get manifest ''@id'')
                else if truthy (get manifest ''id'') then string_of (get manifest ''id'')
                else if manifestUrl \<noteq> [] then manifestUrl
                else label) \<and>
         get r ''title'' = JStr title \<and> title \<noteq> [] \<and>
         get r ''id'' = JStr ident \<and> ident \<noteq> [] \<and>
         title = (if label \<noteq> [] then label
                  else if eid \<noteq> [] then eid
                  else ''[untitled IIIF manifest]'') \<and>
         ident = (if eid \<noteq> [] then eid else title)"
      by (intro exI conjI) (rule l e c1 c2 c3 c4 c5 c6 c7)+
  qed
  show ?thesis using a b by (rule conjI)
qed

theorem C2_title_and_id_nonempty_witness:
  "(\<exists>r. manifestToCSLItem ex_url_api ex_manifest_empty [] = Inr r \<and>
        get r ''title'' = JStr ''[untitled IIIF manifest]'' \<and>
        get r ''id'' = JStr ''[untitled IIIF manifest]'') \<and>
   (\<exists>r. manifestToCSLItem ex_url_api ex_manifest_folio
           ''https://example.org/iiif/folio/manifest.json'' = Inr r \<and>
        get r ''title'' = JStr ''First Folio'' \<and>
        get r ''id'' = JStr ''https://example.org/iiif/folio/manifest.json'') \<and>
   (\<exists>r. manifestToCSLItem ex_url_api ex_manifest_id_only [] = Inr r \<and>
        get r ''title'' = JStr ''https://example.org/iiif/x/manifest'' \<and>
        get r ''id'' = JStr ''https://example.org/iiif/x/manifest'')"
proof -
  have gen: "\<exists>r. manifestToCSLItem ex_url_api m url = Inr r \<and>
                 get r ''title'' = JStr t \<and> get r ''id'' = JStr i"
    if w: "well_formed_manifest m"
      and l: "iiifLabelToString (get m ''label'') = Inr l"
      and e: "extractIdFromManifest m url = Inr e"
      and t: "(if l \<noteq> [] then l else if e \<noteq> [] then e else ''[untitled IIIF manifest]'') = t"
      and i: "(if e \<noteq> [] then e else t) = i"
    for m url l e t i
  proof -
    note c2 = C2_title_and_id_nonempty [of m ex_url_api url]
    have "\<exists>r. manifestToCSLItem ex_url_api m url = Inr r"
      by (rule mp [OF conjunct1 [OF c2] w])
    then obtain r where r: "manifestToCSLItem ex_url_api m url = Inr r" ..
    have "\<exists>label eid title ident.
         iiifLabelToString (get m ''label'') = Inr label \<and>
         extractIdFromManifest m url = Inr eid \<and>
         eid = (if truthy (get m ''@id'') then string_of (get m ''@id'')
                else if truthy (get m ''id'') then string_of (get m ''id'')
                else if url \<noteq> [] then url
                else label) \<and>
         get r ''title'' = JStr title \<and> title \<noteq> [] \<and>
         get r ''id'' = JStr ident \<and> ident \<noteq> [] \<and>
         title = (if label \<noteq> [] then label
                  else if eid \<noteq> [] then eid
                  else ''[untitled IIIF manifest]'') \<and>
         ident = (if eid \<noteq> [] then eid else title)"
      by (rule mp [OF spec [OF conjunct2 [OF c2]] r])
    then obtain label eid title ident where
      l': "iiifLabelToString (get m ''label'') = Inr label" and
      e': "extractIdFromManifest m url = Inr eid" and
      gt: "get r ''title'' = JStr title" and
      gi: "get r ''id'' = JStr ident" and
      teq: "title = (if label \<noteq> [] then label
                  else if eid \<noteq> [] then eid
                  else ''[untitled IIIF manifest]'')" and
      ieq: "ident = (if eid \<noteq> [] then eid else title)"
      by blast
    have le: "label = l" using l l' by simp
    have ee: "eid = e" using e e' by simp
    have "title = t" unfolding teq le ee by (rule t)
    moreover from this have "ident = i" unfolding ieq ee by (simp only: i)
    ultimately show ?thesis using r gt gi by blast
  qed
  have w1: "well_formed_manifest ex_manifest_empty" by code_simp
  have l1: "iiifLabelToString (get ex_manifest_empty ''label'') = Inr []" by code_simp
  have e1: "extractIdFromManifest ex_manifest_empty [] = Inr []" by code_simp
  have a: "\<exists>r. manifestToCSLItem ex_url_api ex_manifest_empty [] = Inr r \<and>
        get r ''title'' = JStr ''[untitled IIIF manifest]'' \<and>
        get r ''id'' = JStr ''[untitled IIIF manifest]''"
    by (rule gen [OF w1 l1 e1]) simp_all
  have w2: "well_formed_manifest ex_manifest_folio" by code_simp
  have l2: "iiifLabelToString (get ex_manifest_folio ''label'') = Inr ''First Folio''"
    by code_simp
  have e2: "extractIdFromManifest ex_manifest_folio ''https://example.org/iiif/folio/manifest.json''
            = Inr ''https://example.org/iiif/folio/manifest.json''" by code_simp
  have b: "\<exists>r. manifestToCSLItem ex_url_api ex_manifest_folio
           ''https://example.org/iiif/folio/manifest.json'' = Inr r \<and>
        get r ''title'' = JStr ''First Folio'' \<and>
        get r ''id'' = JStr ''https://example.org/iiif/folio/manifest.json''"
    by (rule gen [OF w2 l2 e2]) simp_all
  have w3: "well_formed_manifest ex_manifest_id_only" by code_simp
  have l3: "iiifLabelToString (get ex_manifest_id_only ''label'') = Inr []" by code_simp
  have e3: "extractIdFromManifest ex_manifest_id_only [] = Inr ''https://example.org/iiif/x/manifest''"
    by code_simp
  have c: "\<exists>r. manifestToCSLItem ex_url_api ex_manifest_id_only [] = Inr r \<and>
        get r ''title'' = JStr ''https://example.org/iiif/x/manifest'' \<and>
        get r ''id'' = JStr ''https://example.org/iiif/x/manifest''"
    by (rule gen [OF w3 l3 e3]) simp_all
  show ?thesis by (intro conjI) (rule a b c)+
qed

text \<open>A label that cannot be converted to a string makes the conversion throw: no
  record is produced.\<close>

lemma manifestToCSLItem_throws_example:
  "\<not> plain ex_manifest_unconvertible \<and>
   manifestToCSLItem ex_url_api ex_manifest_unconvertible ''https://example.org/m'' =
     Inl TypeError"
  by code_simp

section \<open>Properties of the Retrieval Pipeline\<close>

lemma urls_loop_step:
  "url \<noteq> [] \<Longrightarrow>
   urls_loop P (url # urls) b w =
     (case fst (process_url P url w) of
        Inl e \<Rightarrow> urls_loop P urls (b\<lparr>diagnostics := diagnostics b @ [(url, e)]\<rparr>)
                   (snd (process_url P url w))
      | Inr item \<Rightarrow> urls_loop P urls (b\<lparr>items := items b @ [item]\<rparr>)
                      (snd (process_url P url w)))"
  by (auto simp: process_url_def split: prod.splits sum.splits)

lemma urls_loop_outcomes:
  "fst (urls_loop P urls b w) =
     \<lparr>items = items b @ successes (outcomes P urls w),
      diagnostics = diagnostics b @ failures (outcomes P urls w)\<rparr>"
proof (induction urls arbitrary: b w)
  case Nil
  then show ?case by simp
next
  case (Cons url urls)
  show ?case
  proof (cases "url = []")
    case True
    then show ?thesis using Cons.IH by simp
  next
    case False
    show ?thesis
    proof (cases "fst (process_url P url w)")
      case (Inl e)
      then show ?thesis
        unfolding urls_loop_step [OF False] using False Cons.IH by simp
    next
      case (Inr item)
      then show ?thesis
        unfolding urls_loop_step [OF False] using False Cons.IH by simp
    qed
  qed
qed

lemma urls_loop_append:
  "urls_loop P (xs @ ys) b w =
     urls_loop P ys (fst (urls_loop P xs b w)) (snd (urls_loop P xs b w))"
proof (induction xs arbitrary: b w)
  case Nil
  then show ?case by simp
next
  case (Cons url xs)
  show ?case
  proof (cases "url = []")
    case True
    then show ?thesis using Cons.IH by simp
  next
    case False
    show ?thesis
    proof (cases "fst (process_url P url w)")
      case (Inl e)
      then show ?thesis
        using urls_loop_step [OF False, of P "xs @ ys" b w] urls_loop_step [OF False, of P xs b w]
          Cons.IH by simp
    next
      case (Inr item)
      then show ?thesis
        using urls_loop_step [OF False, of P "xs @ ys" b w] urls_loop_step [OF False, of P xs b w]
          Cons.IH by simp
    qed
  qed
qed

lemma outcomes_urls: "map fst (outcomes P urls w) = filter (\<lambda>url. url \<noteq> []) urls"
  by (induction urls arbitrary: w) auto

lemma items_append:
  "items (fst (iiifManifestUrlsToCSL P (xs @ ys) w)) =
     items (fst (iiifManifestUrlsToCSL P xs w)) @
     items (fst (iiifManifestUrlsToCSL P ys (snd (iiifManifestUrlsToCSL P xs w))))"
proof -
  let ?e = "\<lparr>items = [], diagnostics = []\<rparr>"
  have "items (fst (urls_loop P (xs @ ys) ?e w)) =
        items (fst (urls_loop P ys (fst (urls_loop P xs ?e w)) (snd (urls_loop P xs ?e w))))"
    by (simp only: urls_loop_append)
  also have "\<dots> = items (fst (urls_loop P xs ?e w)) @
                   successes (outcomes P ys (snd (urls_loop P xs ?e w)))"
    by (simp add: urls_loop_outcomes)
  also have "successes (outcomes P ys (snd (urls_loop P xs ?e w))) =
             items (fst (urls_loop P ys ?e (snd (urls_loop P xs ?e w))))"
    by (simp add: urls_loop_outcomes)
  finally show ?thesis by (simp add: iiifManifestUrlsToCSL_def)
qed

text \<open>
  C1. The pipeline visits the non-empty URLs in input order, one outcome per URL. Its
  items are the records of exactly the URLs whose retrieval and conversion succeeded, in
  input order; every failed URL (network error, non-success status, failed sniff,
  malformed JSON, failed conversion) gives one diagnostic and no record; and a batch
  followed by more URLs gives the items of the batch followed by the items of the rest,
  processed from the world the batch left, whatever failed in the batch.
\<close>

theorem C1_pipeline_keeps_successes_in_order:
  "items (fst (iiifManifestUrlsToCSL P urls w)) = successes (outcomes P urls w) \<and>
   diagnostics (fst (iiifManifestUrlsToCSL P urls w)) = failures (outcomes P urls w) \<and>
   map fst (outcomes P urls w) = filter (\<lambda>url. url \<noteq> []) urls \<and>
   length (items (fst (iiifManifestUrlsToCSL P urls w))) +
     length (diagnostics (fst (iiifManifestUrlsToCSL P urls w))) =
     length (filter (\<lambda>url. url \<noteq> []) urls) \<and>
   items (fst (iiifManifestUrlsToCSL P (urls @ later) w)) =
     items (fst (iiifManifestUrlsToCSL P urls w)) @
     items (fst (iiifManifestUrlsToCSL P later (snd (iiifManifestUrlsToCSL P urls w))))"
proof -
  have a: "fst (iiifManifestUrlsToCSL P urls w) =
      \<lparr>items = successes (outcomes P urls w), diagnostics = failures (outcomes P urls w)\<rparr>"
    by (simp add: iiifManifestUrlsToCSL_def urls_loop_outcomes)
  have l: "\<And>os. length (successes os) + length (failures os) = length os"
  proof -
    fix os :: "(string \<times> (error + jsval)) list"
    show "length (successes os) + length (failures os) = length os"
      by (induction os rule: successes.induct) auto
  qed
  have n: "length (outcomes P urls w) = length (filter (\<lambda>url. url \<noteq> []) urls)"
    using outcomes_urls [of P urls w] by (metis length_map)
  show ?thesis
    using a l [of "outcomes P urls w"] n outcomes_urls [of P urls w] items_append [of P urls later w]
    by simp
qed

theorem C1_pipeline_keeps_successes_in_order_witness:
  "map (\<lambda>r. get r ''title'')
     (items (fst (iiifManifestUrlsToCSL ex_platform
        [''https://example.org/a/manifest.json'', ''https://example.org/b/manifest.json'', [],
         ''https://example.org/c/manifest.json''] 0)))
     = [JStr ''Book A'', JStr ''Book C''] \<and>
   diagnostics (fst (iiifManifestUrlsToCSL ex_platform
        [''https://example.org/a/manifest.json'', ''https://example.org/b/manifest.json'', [],
         ''https://example.org/c/manifest.json''] 0))
     = [(''https://example.org/b/manifest.json'', HttpError 404)]"
proof -
  let ?urls = "[''https://example.org/a/manifest.json'', ''https://example.org/b/manifest.json'', [],
                ''https://example.org/c/manifest.json'']"
  have s: "map (\<lambda>r. get r ''title'') (successes (outcomes ex_platform ?urls 0))
           = [JStr ''Book A'', JStr ''Book C'']"
    by code_simp
  have f: "failures (outcomes ex_platform ?urls 0)
           = [(''https://example.org/b/manifest.json'', HttpError 404)]"
    by code_simp
  note t = C1_pipeline_keeps_successes_in_order [of ex_platform ?urls 0]
  have i: "items (fst (iiifManifestUrlsToCSL ex_platform ?urls 0))
           = successes (outcomes ex_platform ?urls 0)"
    using t by (rule conjunct1)
  have d: "diagnostics (fst (iiifManifestUrlsToCSL ex_platform ?urls 0))
           = failures (outcomes ex_platform ?urls 0)"
    using t by (rule conjunct1 [OF conjunct2])
  show ?thesis unfolding i d using s f by (rule conjI)
qed

end
